theory Spec2Isabelle
  imports Main "HOL-Library.Product_Lexorder"
begin

section \<open>Who-What-Benchmark command line (whowhatbench/wwb.py)\<close>

text \<open>
  A shallow embedding of \<^verbatim>\<open>wwb.py\<close>. Python strings are \<open>string\<close>; \<open>None\<close>-able
  values are \<open>option\<close>s; exceptions are values of \<open>error\<close>, carried in the left
  summand of a result. Objects of the machine-learning libraries (models, tokenizers,
  configurations, data frames, the \<^verbatim>\<open>Evaluator\<close>) are opaque values of a type \<open>'o\<close>.
\<close>

subsection \<open>Exceptions and truthiness\<close>

datatype error =
    AssertionError
  | IndexError
  | KeyError
  | ValueError string   \<comment> \<open>\<^verbatim>\<open>ValueError\<close> or a subclass of it, with its message\<close>
  | OtherError string   \<comment> \<open>any exception that is not a \<^verbatim>\<open>ValueError\<close>\<close>

fun is_ValueError :: "error \<Rightarrow> bool" where
  "is_ValueError (ValueError m) = True"
| "is_ValueError e = False"

text \<open>Python's truth value of an optional string: \<open>None\<close> and \<open>""\<close> are false.\<close>

fun truthy :: "string option \<Rightarrow> bool" where
  "truthy None = False"
| "truthy (Some s) = (s \<noteq> [])"

subsection \<open>The argument namespace\<close>

record args =
  base_model :: "string option"
  target_model :: "string option"
  tokenizer :: "string option"
  gt_data :: "string option"
  text_encoder :: string
  dataset :: "string option"
  dataset_field :: string
  split :: "string option"
  output_dir :: "string option"   \<comment> \<open>\<^verbatim>\<open>args.output\<close>\<close>
  num_samples :: "int option"
  verbose :: bool
  device :: string
  ov_config :: "string option"
  language :: "string option"
  hf :: bool

text \<open>The namespace \<^verbatim>\<open>parse_args\<close> returns for an empty command line: every default.\<close>

definition parse_args_defaults :: args where
  "parse_args_defaults =
     \<lparr> base_model = None, target_model = None, tokenizer = None, gt_data = None,
       text_encoder = ''sentence-transformers/all-mpnet-base-v2'',
       dataset = None, dataset_field = ''questions'', split = None, output_dir = None,
       num_samples = None, verbose = False, device = ''CPU'', ov_config = None,
       language = None, hf = False \<rparr>"

subsection \<open>Effects: the world outside the script\<close>

text \<open>
  Every call into a library is an effect. A computation takes the state \<open>'w\<close> of the
  outside world (file system, model hub, loaded libraries) and returns its result or the
  exception it raised, the new world, and the calls it made, in order. A call to
  \<^verbatim>\<open>os.path.exists\<close> is recorded together with its answer.
\<close>

datatype 'o logarg = LStr string | LInt int | LObj 'o

datatype 'o event =
    LoadDataset string "string option" string
      \<comment> \<open>\<^verbatim>\<open>load_dataset(path=, name=, split=)\<close>\<close>
  | TokenizerFromPretrained "string option"
      \<comment> \<open>\<^verbatim>\<open>AutoTokenizer.from_pretrained(id, trust_remote_code=True)\<close>\<close>
  | PathExists string bool
      \<comment> \<open>\<^verbatim>\<open>os.path.exists(path)\<close> and what it returned\<close>
  | HFFromPretrained "string option" string
      \<comment> \<open>\<^verbatim>\<open>AutoModelForCausalLM.from_pretrained(id, trust_remote_code=True, device_map=)\<close>\<close>
  | JsonLoad string
      \<comment> \<open>\<^verbatim>\<open>open(path)\<close> followed by \<^verbatim>\<open>json.load\<close>\<close>
  | OVFromPretrained "string option" "'o option" bool string "'o option"
      \<comment> \<open>\<^verbatim>\<open>OVModelForCausalLM.from_pretrained\<close>: id, \<^verbatim>\<open>config=\<close> if passed, whether
          \<^verbatim>\<open>use_cache=True\<close> is passed, \<^verbatim>\<open>device=\<close>, \<^verbatim>\<open>ov_config=\<close>\<close>
  | AutoConfigFromPretrained "string option"
  | EvaluatorInit "'o option" "string option" "(string \<times> 'o list) list option" 'o string
      "int option" "string option"
      \<comment> \<open>\<^verbatim>\<open>Evaluator(base_model=, gt_data=, test_data=, tokenizer=, similarity_model_id=,
          num_samples=, language=)\<close>; \<open>None\<close> in the second place: \<^verbatim>\<open>gt_data\<close> is not passed\<close>
  | DumpGt 'o string
  | Del string
      \<comment> \<open>\<^verbatim>\<open>del\<close> of a local name\<close>
  | Score 'o 'o
  | LogInfo "'o logarg" "'o logarg list"
      \<comment> \<open>\<^verbatim>\<open>logger.info(msg, *args)\<close>\<close>
  | Mkdir string
  | DataFrame 'o
  | ToCsv 'o string
  | WorstExamples 'o int string

type_synonym ('a, 'o, 'w) io = "'w \<Rightarrow> (error + 'a) \<times> 'w \<times> 'o event list"

definition io_return :: "'a \<Rightarrow> ('a, 'o, 'w) io" where
  "io_return x = (\<lambda>w. (Inr x, w, []))"

definition io_raise :: "error \<Rightarrow> ('a, 'o, 'w) io" where
  "io_raise e = (\<lambda>w. (Inl e, w, []))"

text \<open>Sequencing: an exception in the first part skips the second.\<close>

definition io_bind :: "('a, 'o, 'w) io \<Rightarrow> ('a \<Rightarrow> ('b, 'o, 'w) io) \<Rightarrow> ('b, 'o, 'w) io" where
  "io_bind m f =
     (\<lambda>w. case m w of
            (Inl e, w1, t1) \<Rightarrow> (Inl e, w1, t1)
          | (Inr x, w1, t1) \<Rightarrow> (case f x w1 of (r, w2, t2) \<Rightarrow> (r, w2, t1 @ t2)))"

text \<open>A library call that may raise: the event, and the library's answer in this world.\<close>

definition call :: "'o event \<Rightarrow> ('w \<Rightarrow> (error + 'a) \<times> 'w) \<Rightarrow> ('a, 'o, 'w) io" where
  "call ev f = (\<lambda>w. case f w of (r, w1) \<Rightarrow> (r, w1, [ev]))"

text \<open>Statements of the script that cannot raise: logging and \<^verbatim>\<open>del\<close>.\<close>

definition emit :: "'o event \<Rightarrow> (unit, 'o, 'w) io" where
  "emit ev = (\<lambda>w. (Inr (), w, [ev]))"

text \<open>One worst example as \<^verbatim>\<open>Evaluator.worst_examples\<close> returns it: the two keys \<^verbatim>\<open>main\<close> reads.\<close>

record example =
  source_model :: string
  optimized_model :: string

text \<open>
  The libraries the script imports, as functions of the world. \<^verbatim>\<open>Evaluator\<close> is imported
  from the package and not part of \<^verbatim>\<open>wwb.py\<close>; its constructor and methods are
  parameters like the rest.
\<close>

record ('o, 'w) env =
  load_dataset :: "string \<Rightarrow> string option \<Rightarrow> string \<Rightarrow> 'w \<Rightarrow> (error + (string \<rightharpoonup> 'o list)) \<times> 'w"
  tokenizer_from_pretrained :: "string option \<Rightarrow> 'w \<Rightarrow> (error + 'o) \<times> 'w"
  path_exists :: "string \<Rightarrow> 'w \<Rightarrow> bool \<times> 'w"
  hf_from_pretrained :: "string option \<Rightarrow> string \<Rightarrow> 'w \<Rightarrow> (error + 'o) \<times> 'w"
  json_load :: "string \<Rightarrow> 'w \<Rightarrow> (error + 'o) \<times> 'w"
  ov_from_pretrained ::
    "string option \<Rightarrow> 'o option \<Rightarrow> bool \<Rightarrow> string \<Rightarrow> 'o option \<Rightarrow> 'w \<Rightarrow> (error + 'o) \<times> 'w"
  auto_config_from_pretrained :: "string option \<Rightarrow> 'w \<Rightarrow> (error + 'o) \<times> 'w"
  evaluator_init ::
    "'o option \<Rightarrow> string option \<Rightarrow> (string \<times> 'o list) list option \<Rightarrow> 'o \<Rightarrow> string \<Rightarrow>
     int option \<Rightarrow> string option \<Rightarrow> 'w \<Rightarrow> (error + 'o) \<times> 'w"
  dump_gt :: "'o \<Rightarrow> string \<Rightarrow> 'w \<Rightarrow> (error + unit) \<times> 'w"
  score :: "'o \<Rightarrow> 'o \<Rightarrow> 'w \<Rightarrow> (error + 'o \<times> 'o) \<times> 'w"
  mkdir :: "string \<Rightarrow> 'w \<Rightarrow> (error + unit) \<times> 'w"
  data_frame :: "'o \<Rightarrow> 'w \<Rightarrow> (error + 'o) \<times> 'w"
  to_csv :: "'o \<Rightarrow> string \<Rightarrow> 'w \<Rightarrow> (error + unit) \<times> 'w"
  worst_examples :: "'o \<Rightarrow> int \<Rightarrow> string \<Rightarrow> 'w \<Rightarrow> (error + example list) \<times> 'w"

subsection \<open>check_args\<close>

text \<open>
  Two \<^verbatim>\<open>assert\<close> statements in sequence. The namespace is passed by reference, so the
  model returns it as it is after the call: no statement of the function assigns to it.
\<close>

definition check_args :: "args \<Rightarrow> error + args" where
  "check_args a =
     (if \<not> \<not> (base_model a = None \<and> target_model a = None) then Inl AssertionError
      else if \<not> \<not> (base_model a = None \<and> gt_data a = None) then Inl AssertionError
      else Inr a)"

subsection \<open>load_tokenizer\<close>

definition load_tokenizer :: "('o, 'w) env \<Rightarrow> args \<Rightarrow> ('o, 'o, 'w) io" where
  "load_tokenizer E a =
     (if tokenizer a \<noteq> None then
        call (TokenizerFromPretrained (tokenizer a)) (tokenizer_from_pretrained E (tokenizer a))
      else if base_model a \<noteq> None then
        call (TokenizerFromPretrained (base_model a)) (tokenizer_from_pretrained E (base_model a))
      else
        call (TokenizerFromPretrained (target_model a))
          (tokenizer_from_pretrained E (target_model a)))"

subsection \<open>load_prompts\<close>

text \<open>\<^verbatim>\<open>s.split(sep)\<close> for a separator of one character: never the empty list.\<close>

fun str_split :: "char \<Rightarrow> string \<Rightarrow> string list" where
  "str_split sep [] = [[]]"
| "str_split sep (c # cs) =
     (if c = sep then [] # str_split sep cs
      else (case str_split sep cs of
              [] \<Rightarrow> [[c]]
            | p # ps \<Rightarrow> (c # p) # ps))"

text \<open>\<^verbatim>\<open>xs[i]\<close> for an index that is not negative.\<close>

definition list_get :: "'a list \<Rightarrow> nat \<Rightarrow> error + 'a" where
  "list_get xs i = (if i < length xs then Inr (xs ! i) else Inl IndexError)"

text \<open>The two arguments \<^verbatim>\<open>path\<close> and \<^verbatim>\<open>name\<close> that lines 57 to 63 compute from \<^verbatim>\<open>args.dataset\<close>.\<close>

definition dataset_path_name :: "string \<Rightarrow> error + string \<times> string option" where
  "dataset_path_name ds =
     (if CHR '','' \<in> set ds then
        (let path_name = str_split CHR '','' ds in
         case list_get path_name 0 of
           Inl e \<Rightarrow> Inl e
         | Inr path \<Rightarrow>
             (case list_get path_name 1 of
                Inl e \<Rightarrow> Inl e
              | Inr name \<Rightarrow> Inr (path, Some name)))
      else Inr (ds, None))"

text \<open>\<^verbatim>\<open>data[field]\<close> on the loaded split: the column, or \<^verbatim>\<open>KeyError\<close>.\<close>

definition column :: "(string \<rightharpoonup> 'o list) \<Rightarrow> string \<Rightarrow> error + 'o list" where
  "column data field = (case data field of None \<Rightarrow> Inl KeyError | Some res \<Rightarrow> Inr res)"

definition io_lift :: "error + 'a \<Rightarrow> ('a, 'o, 'w) io" where
  "io_lift r = (\<lambda>w. (r, w, []))"

definition load_prompts ::
    "('o, 'w) env \<Rightarrow> args \<Rightarrow> ((string \<times> 'o list) list option, 'o, 'w) io" where
  "load_prompts E a =
     (case dataset a of
        None \<Rightarrow> io_return None
      | Some ds \<Rightarrow>
          (let split0 = ''validation'';
               split1 = (case split a of Some s \<Rightarrow> s | None \<Rightarrow> split0)
           in io_bind (io_lift (dataset_path_name ds)) (\<lambda>(path, name).
              io_bind (call (LoadDataset path name split1) (load_dataset E path name split1)) (\<lambda>data.
              io_bind (io_lift (column data (dataset_field a))) (\<lambda>res.
              io_return (Some [(''questions'', res)]))))))"

subsection \<open>load_model\<close>

text \<open>
  \<^verbatim>\<open>str.lower\<close> on the code points below 256, which are the characters a \<^typ>\<open>string\<close>
  holds: the capitals \<^verbatim>\<open>A\<close> to \<^verbatim>\<open>Z\<close> and the capitals of Latin-1, \<^verbatim>\<open>U+00C0\<close> to \<^verbatim>\<open>U+00DE\<close>
  without the multiplication sign \<^verbatim>\<open>U+00D7\<close>, go to the letter 32 places further; every
  other character, \<^verbatim>\<open>U+00DF\<close> among them, is its own lower case.
\<close>

definition lower_char :: "char \<Rightarrow> char" where
  "lower_char c =
     (let n = (of_char c :: nat)
      in if (65 \<le> n \<and> n \<le> 90) \<or> (192 \<le> n \<and> n \<le> 222 \<and> n \<noteq> 215)
         then char_of (n + 32) else c)"

definition lower :: "string \<Rightarrow> string" where
  "lower s = map lower_char s"

text \<open>
  \<^verbatim>\<open>load_model(model_id, device, ov_config, use_hf, use_genai)\<close>. The \<^verbatim>\<open>try\<close> covers the
  first \<^verbatim>\<open>OVModelForCausalLM.from_pretrained\<close> only; its handler catches \<^verbatim>\<open>ValueError\<close>
  and nothing else.
\<close>

definition io_try :: "('a, 'o, 'w) io \<Rightarrow> (error \<Rightarrow> ('a, 'o, 'w) io) \<Rightarrow> ('a, 'o, 'w) io" where
  "io_try m handler =
     (\<lambda>w. case m w of
            (Inr x, w1, t1) \<Rightarrow> (Inr x, w1, t1)
          | (Inl e, w1, t1) \<Rightarrow> (case handler e w1 of (r, w2, t2) \<Rightarrow> (r, w2, t1 @ t2)))"

text \<open>Lines 31 to 35: \<^verbatim>\<open>ov_options\<close>, read only when \<^verbatim>\<open>ov_config\<close> is a non-empty path.\<close>

definition read_ov_options :: "('o, 'w) env \<Rightarrow> string option \<Rightarrow> ('o option, 'o, 'w) io" where
  "read_ov_options E ov_conf =
     (if truthy ov_conf then
        (case ov_conf of
           Some path \<Rightarrow>
             io_bind (call (JsonLoad path) (json_load E path)) (\<lambda>opts. io_return (Some opts))
         | None \<Rightarrow> io_return None)
      else io_return None)"

text \<open>Lines 39 to 47, the body of the handler: the second attempt, with an explicit configuration.\<close>

definition load_model_retry ::
    "('o, 'w) env \<Rightarrow> string option \<Rightarrow> string \<Rightarrow> 'o option \<Rightarrow> ('o, 'o, 'w) io" where
  "load_model_retry E model_id dev ov_options =
     io_bind (call (AutoConfigFromPretrained model_id) (auto_config_from_pretrained E model_id))
       (\<lambda>config.
     call (OVFromPretrained model_id (Some config) True dev ov_options)
       (ov_from_pretrained E model_id (Some config) True dev ov_options))"

definition load_model ::
    "('o, 'w) env \<Rightarrow> string option \<Rightarrow> string \<Rightarrow> string option \<Rightarrow> bool \<Rightarrow> bool \<Rightarrow> ('o, 'o, 'w) io" where
  "load_model E model_id dev ov_conf use_hf use_genai =
     (if use_hf then
        io_bind (emit (LogInfo (LStr ''Using HF model'') [])) (\<lambda>_.
        call (HFFromPretrained model_id (lower dev)) (hf_from_pretrained E model_id (lower dev)))
      else
        io_bind (read_ov_options E ov_conf) (\<lambda>ov_options.
        io_try
          (call (OVFromPretrained model_id None False dev ov_options)
             (ov_from_pretrained E model_id None False dev ov_options))
          (\<lambda>e. if is_ValueError e then load_model_retry E model_id dev ov_options
               else io_raise e)))"

subsection \<open>The sequence matcher of Python's \<^verbatim>\<open>difflib\<close>\<close>

text \<open>
  \<^verbatim>\<open>diff_strings\<close> calls \<^verbatim>\<open>difflib.SequenceMatcher(None, a, b).get_opcodes()\<close>. The
  definitions of this subsection follow \<^verbatim>\<open>Lib/difflib.py\<close> of CPython for that call:
  \<^verbatim>\<open>isjunk\<close> is \<open>None\<close>, so the junk set is empty, and \<^verbatim>\<open>autojunk\<close> has its default
  \<open>True\<close>. Indices are natural numbers; where Python computes \<^verbatim>\<open>i-k+1\<close> the model
  writes \<open>Suc i - k\<close> (\<open>k\<close> is never more than \<open>i + 1\<close>: lemma \<open>next_len_bounds\<close>), and
  \<^verbatim>\<open>j2len.get(j-1, 0)\<close> at \<open>j = 0\<close> is the default \<open>0\<close>, the key \<open>-1\<close> being in no
  dictionary. The sequences are read with \<open>!\<close> at positions inside them only (lemmas
  \<open>find_longest_match_bounds\<close> and \<open>gmb_loop_in_range\<close>).
\<close>

text \<open>\<^verbatim>\<open>__chain_b\<close>, first loop: the positions of every element of \<open>b\<close>, in increasing order.\<close>

fun chain_b_index :: "string \<Rightarrow> nat \<Rightarrow> (char \<rightharpoonup> nat list) \<Rightarrow> (char \<rightharpoonup> nat list)" where
  "chain_b_index [] i b2j = b2j"
| "chain_b_index (elt # b) i b2j =
     chain_b_index b (Suc i)
       (b2j(elt \<mapsto> (case b2j elt of None \<Rightarrow> [] | Some indices \<Rightarrow> indices) @ [i]))"

text \<open>
  \<^verbatim>\<open>__chain_b\<close>, the purge of popular elements: in a sequence of at least 200 elements,
  an element with more than \<open>n div 100 + 1\<close> positions loses its entry.
\<close>

definition chain_b :: "string \<Rightarrow> (char \<rightharpoonup> nat list)" where
  "chain_b b =
     (let b2j = chain_b_index b 0 Map.empty; n = length b in
      if n \<ge> 200 then
        (let ntest = n div 100 + 1 in
         (\<lambda>elt. case b2j elt of
                  None \<Rightarrow> None
                | Some idxs \<Rightarrow> if length idxs > ntest then None else Some idxs))
      else b2j)"

definition isbjunk :: "char \<Rightarrow> bool" where
  "isbjunk c = False"

type_synonym match = "nat \<times> nat \<times> nat"

text \<open>\<^verbatim>\<open>d.get(key, default)\<close>.\<close>

definition dict_get :: "('k \<rightharpoonup> 'v) \<Rightarrow> 'k \<Rightarrow> 'v \<Rightarrow> 'v" where
  "dict_get d key dflt = (case d key of None \<Rightarrow> dflt | Some v \<Rightarrow> v)"

text \<open>
  The inner loop of \<^verbatim>\<open>find_longest_match\<close> over the positions \<open>j\<close> of \<open>a[i]\<close> in \<open>b\<close>:
  \<^verbatim>\<open>continue\<close> below \<open>blo\<close>, \<^verbatim>\<open>break\<close> from \<open>bhi\<close> on.
\<close>

fun flm_inner ::
    "nat \<Rightarrow> nat \<Rightarrow> nat \<Rightarrow> (nat \<rightharpoonup> nat) \<Rightarrow> nat list \<Rightarrow> (nat \<rightharpoonup> nat) \<times> match \<Rightarrow> (nat \<rightharpoonup> nat) \<times> match" where
  "flm_inner i blo bhi j2len [] st = st"
| "flm_inner i blo bhi j2len (j # js) (newj2len, (besti, bestj, bestsize)) =
     (if j < blo then flm_inner i blo bhi j2len js (newj2len, (besti, bestj, bestsize))
      else if j \<ge> bhi then (newj2len, (besti, bestj, bestsize))
      else
        (let k = (if j = 0 then 0 else dict_get j2len (j - 1) 0) + 1 in
         flm_inner i blo bhi j2len js
           (newj2len(j \<mapsto> k),
            if k > bestsize then (Suc i - k, Suc j - k, k) else (besti, bestj, bestsize))))"

text \<open>The loop \<^verbatim>\<open>for i in range(alo, ahi)\<close>, from row \<open>i\<close> on.\<close>

function flm_outer ::
    "string \<Rightarrow> (char \<rightharpoonup> nat list) \<Rightarrow> nat \<Rightarrow> nat \<Rightarrow> nat \<Rightarrow> nat \<Rightarrow> (nat \<rightharpoonup> nat) \<Rightarrow> match \<Rightarrow> match" where
  "flm_outer a b2j ahi blo bhi i j2len best =
     (if i < ahi then
        (case flm_inner i blo bhi j2len (dict_get b2j (a ! i) []) (Map.empty, best) of
           (newj2len, best') \<Rightarrow> flm_outer a b2j ahi blo bhi (Suc i) newj2len best')
      else best)"
  by pat_completeness auto

termination
  by (relation "measure (\<lambda>(a, b2j, ahi, blo, bhi, i, j2len, best). ahi - i)") auto

text \<open>The two loops that extend the match downwards and upwards, for a junk test \<open>P\<close>.\<close>

function extend_down :: "(char \<Rightarrow> bool) \<Rightarrow> string \<Rightarrow> string \<Rightarrow> nat \<Rightarrow> nat \<Rightarrow> match \<Rightarrow> match" where
  "extend_down P a b alo blo (besti, bestj, bestsize) =
     (if besti > alo \<and> bestj > blo \<and> P (b ! (bestj - 1)) \<and> a ! (besti - 1) = b ! (bestj - 1)
      then extend_down P a b alo blo (besti - 1, bestj - 1, bestsize + 1)
      else (besti, bestj, bestsize))"
  by pat_completeness auto

termination
  by (relation "measure (\<lambda>(P, a, b, alo, blo, besti, bestj, bestsize). besti)") auto

function extend_up :: "(char \<Rightarrow> bool) \<Rightarrow> string \<Rightarrow> string \<Rightarrow> nat \<Rightarrow> nat \<Rightarrow> match \<Rightarrow> match" where
  "extend_up P a b ahi bhi (besti, bestj, bestsize) =
     (if besti + bestsize < ahi \<and> bestj + bestsize < bhi \<and> P (b ! (bestj + bestsize))
         \<and> a ! (besti + bestsize) = b ! (bestj + bestsize)
      then extend_up P a b ahi bhi (besti, bestj, bestsize + 1)
      else (besti, bestj, bestsize))"
  by pat_completeness auto

termination
  by (relation "measure (\<lambda>(P, a, b, ahi, bhi, besti, bestj, bestsize). ahi - (besti + bestsize))") auto

definition find_longest_match ::
    "string \<Rightarrow> string \<Rightarrow> (char \<rightharpoonup> nat list) \<Rightarrow> nat \<Rightarrow> nat \<Rightarrow> nat \<Rightarrow> nat \<Rightarrow> match" where
  "find_longest_match a b b2j alo ahi blo bhi =
     (let best0 = flm_outer a b2j ahi blo bhi alo Map.empty (alo, blo, 0);
          best1 = extend_down (\<lambda>c. \<not> isbjunk c) a b alo blo best0;
          best2 = extend_up (\<lambda>c. \<not> isbjunk c) a b ahi bhi best1;
          best3 = extend_down isbjunk a b alo blo best2
      in extend_up isbjunk a b ahi bhi best3)"

type_synonym span = "nat \<times> nat \<times> nat \<times> nat"

text \<open>
  The loop of \<^verbatim>\<open>get_matching_blocks\<close>: \<^verbatim>\<open>queue.pop()\<close> takes the last entry; a match of
  size \<open>k > 0\<close> is recorded and the parts to its left and to its right are queued. The
  loop terminates because a match of positive size lies inside its range; the proof
  follows the bounds of \<^verbatim>\<open>find_longest_match\<close> below.
\<close>

function gmb_loop ::
    "string \<Rightarrow> string \<Rightarrow> (char \<rightharpoonup> nat list) \<Rightarrow> span list \<Rightarrow> match list \<Rightarrow> match list" where
  "gmb_loop a b b2j queue matching_blocks =
     (if queue = [] then matching_blocks
      else
        (case last queue of (alo, ahi, blo, bhi) \<Rightarrow>
           (case find_longest_match a b b2j alo ahi blo bhi of (i, j, k) \<Rightarrow>
              if k \<noteq> 0 then
                gmb_loop a b b2j
                  (butlast queue
                     @ (if alo < i \<and> blo < j then [(alo, i, blo, j)] else [])
                     @ (if i + k < ahi \<and> j + k < bhi then [(i + k, ahi, j + k, bhi)] else []))
                  (matching_blocks @ [(i, j, k)])
              else gmb_loop a b b2j (butlast queue) matching_blocks)))"
  by pat_completeness auto

text \<open>The loop that collapses adjacent blocks, with \<open>(i1, j1, k1)\<close> the block to compare against.\<close>

fun collapse_adjacent :: "match list \<Rightarrow> match \<Rightarrow> match list \<Rightarrow> match \<times> match list" where
  "collapse_adjacent [] blk non_adjacent = (blk, non_adjacent)"
| "collapse_adjacent ((i2, j2, k2) # blocks) (i1, j1, k1) non_adjacent =
     (if i1 + k1 = i2 \<and> j1 + k1 = j2
      then collapse_adjacent blocks (i1, j1, k1 + k2) non_adjacent
      else collapse_adjacent blocks (i2, j2, k2)
             (if k1 \<noteq> 0 then non_adjacent @ [(i1, j1, k1)] else non_adjacent))"

definition get_matching_blocks :: "string \<Rightarrow> string \<Rightarrow> match list" where
  "get_matching_blocks a b =
     (let la = length a; lb = length b;
          matching_blocks = sort (gmb_loop a b (chain_b b) [(0, la, 0, lb)] [])
      in case collapse_adjacent matching_blocks (0, 0, 0) [] of
           ((i1, j1, k1), non_adjacent) \<Rightarrow>
             (if k1 \<noteq> 0 then non_adjacent @ [(i1, j1, k1)] else non_adjacent) @ [(la, lb, 0)])"

type_synonym opcode = "string \<times> nat \<times> nat \<times> nat \<times> nat"

text \<open>The loop of \<^verbatim>\<open>get_opcodes\<close> over the matching blocks, from the position \<open>(i, j)\<close>.\<close>

fun opcodes_loop :: "match list \<Rightarrow> nat \<Rightarrow> nat \<Rightarrow> opcode list \<Rightarrow> opcode list" where
  "opcodes_loop [] i j answer = answer"
| "opcodes_loop ((ai, bj, sz) # blocks) i j answer =
     (let tag = (if i < ai \<and> j < bj then ''replace''
                 else if i < ai then ''delete''
                 else if j < bj then ''insert''
                 else '''');
          answer1 = (if tag \<noteq> [] then answer @ [(tag, i, ai, j, bj)] else answer);
          i' = ai + sz; j' = bj + sz;
          answer2 = (if sz \<noteq> 0 then answer1 @ [(''equal'', ai, i', bj, j')] else answer1)
      in opcodes_loop blocks i' j' answer2)"

definition get_opcodes :: "string \<Rightarrow> string \<Rightarrow> opcode list" where
  "get_opcodes a b = opcodes_loop (get_matching_blocks a b) 0 0 []"

subsection \<open>diff_strings\<close>

text \<open>\<^verbatim>\<open>s[lo:hi]\<close> for bounds that are not negative.\<close>

definition slice :: "'a list \<Rightarrow> nat \<Rightarrow> nat \<Rightarrow> 'a list" where
  "slice s lo hi = drop lo (take hi s)"

definition green :: "bool \<Rightarrow> string" where
  "green use_loguru_colors =
     (if use_loguru_colors then ''<GREEN><black>'' else CHR 0x1B # ''[38;5;16;48;5;2m'')"

definition red :: "bool \<Rightarrow> string" where
  "red use_loguru_colors =
     (if use_loguru_colors then ''<RED><black>'' else CHR 0x1B # ''[38;5;16;48;5;1m'')"

definition endgreen :: "bool \<Rightarrow> string" where
  "endgreen use_loguru_colors =
     (if use_loguru_colors then ''</black></GREEN>'' else CHR 0x1B # ''[0m'')"

definition endred :: "bool \<Rightarrow> string" where
  "endred use_loguru_colors =
     (if use_loguru_colors then ''</black></RED>'' else CHR 0x1B # ''[0m'')"

text \<open>The loop over the opcodes; \<open>output\<close> is the list of pieces appended so far.\<close>

fun diff_loop :: "string \<Rightarrow> string \<Rightarrow> bool \<Rightarrow> opcode list \<Rightarrow> string list \<Rightarrow> string list" where
  "diff_loop a b lc [] out = out"
| "diff_loop a b lc ((opcode, a0, a1, b0, b1) # ops) out =
     (if opcode = ''equal'' then diff_loop a b lc ops (out @ [slice a a0 a1])
      else if opcode = ''insert'' then
        diff_loop a b lc ops (out @ [green lc @ slice b b0 b1 @ endgreen lc])
      else if opcode = ''delete'' then
        diff_loop a b lc ops (out @ [red lc @ slice a a0 a1 @ endred lc])
      else if opcode = ''replace'' then
        diff_loop a b lc ops
          ((out @ [green lc @ slice b b0 b1 @ endgreen lc]) @ [red lc @ slice a a0 a1 @ endred lc])
      else diff_loop a b lc ops out)"

definition diff_strings :: "string \<Rightarrow> string \<Rightarrow> bool \<Rightarrow> string" where
  "diff_strings a b use_loguru_colors =
     concat (diff_loop a b use_loguru_colors (get_opcodes a b) [])"

subsection \<open>main\<close>

text \<open>
  \<^verbatim>\<open>str.splitlines()\<close> on characters below 256: the line boundaries are \<^verbatim>\<open>\n\<close>, \<^verbatim>\<open>\r\<close>,
  \<^verbatim>\<open>\r\n\<close>, \<^verbatim>\<open>\v\<close>, \<^verbatim>\<open>\f\<close>, \<^verbatim>\<open>\x1c\<close>, \<^verbatim>\<open>\x1d\<close>, \<^verbatim>\<open>\x1e\<close> and \<^verbatim>\<open>\x85\<close>; the
  boundaries are dropped, and a boundary at the very end opens no further line.
  \<open>cur\<close> is the line read so far.
\<close>

definition is_linebreak :: "char \<Rightarrow> bool" where
  "is_linebreak c = (c \<in> set [CHR 0x0A, CHR 0x0D, CHR 0x0B, CHR 0x0C, CHR 0x1C, CHR 0x1D, CHR 0x1E, CHR 0x85])"

fun splitlines_from :: "string \<Rightarrow> string \<Rightarrow> string list" where
  "splitlines_from cur [] = (if cur = [] then [] else [cur])"
| "splitlines_from cur (c # cs) =
     (if c = CHR 0x0D then
        (case cs of
           d # ds \<Rightarrow> if d = CHR 0x0A then cur # splitlines_from [] ds
                     else cur # splitlines_from [] cs
         | [] \<Rightarrow> cur # splitlines_from [] cs)
      else if is_linebreak c then cur # splitlines_from [] cs
      else splitlines_from (cur @ [c]) cs)"

definition splitlines :: "string \<Rightarrow> string list" where
  "splitlines s = splitlines_from [] s"

text \<open>\<^verbatim>\<open>os.path.join(a, p)\<close> of two components, as \<^verbatim>\<open>posixpath\<close> computes it.\<close>

definition path_join :: "string \<Rightarrow> string \<Rightarrow> string" where
  "path_join a p =
     (if p \<noteq> [] \<and> hd p = CHR ''/'' then p
      else if a = [] \<or> last a = CHR ''/'' then a @ p
      else a @ ''/'' @ p)"

definition exists_path :: "('o, 'w) env \<Rightarrow> string \<Rightarrow> (bool, 'o, 'w) io" where
  "exists_path E p = (\<lambda>w. case path_exists E p w of (r, w1) \<Rightarrow> (Inr r, w1, [PathExists p r]))"

text \<open>
  Lines 233 to 255 of \<^verbatim>\<open>main\<close>: the evaluator, from the ground-truth file when
  \<^verbatim>\<open>args.gt_data\<close> is true and the file exists (\<^verbatim>\<open>and\<close> does not look for the file
  otherwise), else from the base model.
\<close>

definition main_evaluator ::
    "('o, 'w) env \<Rightarrow> args \<Rightarrow> (string \<times> 'o list) list option \<Rightarrow> 'o \<Rightarrow> ('o, 'o, 'w) io" where
  "main_evaluator E a prompts tok =
     io_bind
       (case gt_data a of
          None \<Rightarrow> io_return False
        | Some gt \<Rightarrow> if gt \<noteq> [] then exists_path E gt else io_return False)
       (\<lambda>use_gt.
          if use_gt then
            call (EvaluatorInit None (gt_data a) prompts tok (text_encoder a) (num_samples a)
                    (language a))
              (evaluator_init E None (gt_data a) prompts tok (text_encoder a) (num_samples a)
                 (language a))
          else
            io_bind (load_model E (base_model a) (device a) (ov_config a) (hf a) False)
              (\<lambda>base.
            io_bind
              (call (EvaluatorInit (Some base) None prompts tok (text_encoder a) (num_samples a)
                       (language a))
                 (evaluator_init E (Some base) None prompts tok (text_encoder a) (num_samples a)
                    (language a)))
              (\<lambda>evaluator.
            io_bind
              (case gt_data a of
                 None \<Rightarrow> io_return ()
               | Some gt \<Rightarrow>
                   if gt \<noteq> [] then call (DumpGt evaluator gt) (dump_gt E evaluator gt)
                   else io_return ())
              (\<lambda>_.
            io_bind (emit (Del ''base_model'')) (\<lambda>_. io_return evaluator)))))"

text \<open>Lines 263 to 269: the two tables, written when \<^verbatim>\<open>args.output\<close> is true.\<close>

definition main_output :: "('o, 'w) env \<Rightarrow> args \<Rightarrow> 'o \<Rightarrow> 'o \<Rightarrow> (unit, 'o, 'w) io" where
  "main_output E a all_metrics_per_question all_metrics =
     (case output_dir a of
        None \<Rightarrow> io_return ()
      | Some out \<Rightarrow>
          if out \<noteq> [] then
            io_bind (exists_path E out) (\<lambda>ex.
            io_bind (if \<not> ex then call (Mkdir out) (mkdir E out) else io_return ()) (\<lambda>_.
            io_bind (call (DataFrame all_metrics_per_question)
                       (data_frame E all_metrics_per_question)) (\<lambda>df.
            io_bind (call (ToCsv df (path_join out ''metrics_per_qustion.csv''))
                       (to_csv E df (path_join out ''metrics_per_qustion.csv''))) (\<lambda>_.
            io_bind (call (DataFrame all_metrics) (data_frame E all_metrics)) (\<lambda>df.
            call (ToCsv df (path_join out ''metrics.csv''))
              (to_csv E df (path_join out ''metrics.csv'')))))))
          else io_return ())"

text \<open>Lines 257 to 269: the target model and its scores, when \<^verbatim>\<open>args.target_model\<close> is true.\<close>

definition main_target :: "('o, 'w) env \<Rightarrow> args \<Rightarrow> 'o \<Rightarrow> (unit, 'o, 'w) io" where
  "main_target E a evaluator =
     (case target_model a of
        None \<Rightarrow> io_return ()
      | Some tm \<Rightarrow>
          if tm \<noteq> [] then
            io_bind (load_model E (target_model a) (device a) (ov_config a) (hf a) False)
              (\<lambda>target.
            io_bind (call (Score evaluator target) (score E evaluator target))
              (\<lambda>(all_metrics_per_question, all_metrics).
            io_bind (emit (LogInfo (LStr ''Metrics for model: %s'') [LStr tm])) (\<lambda>_.
            io_bind (emit (LogInfo (LObj all_metrics) [])) (\<lambda>_.
            main_output E a all_metrics_per_question all_metrics))))
          else io_return ())"

text \<open>
  Lines 275 to 283: the three texts of one example, built over the zipped lines; a pair
  of two empty lines is skipped.
\<close>

fun example_texts ::
    "(string \<times> string) list \<Rightarrow> string \<times> string \<times> string \<Rightarrow> string \<times> string \<times> string" where
  "example_texts [] acc = acc"
| "example_texts ((l1, l2) # ls) (ref_text, actual_text, diff) =
     (if l1 = [] \<and> l2 = [] then example_texts ls (ref_text, actual_text, diff)
      else example_texts ls
             (ref_text @ (l1 @ [CHR 0x0A]),
              actual_text @ (l2 @ [CHR 0x0A]),
              diff @ (diff_strings l1 l2 False @ [CHR 0x0A])))"

text \<open>Lines 274 to 289: the loop over \<^verbatim>\<open>enumerate(worst_examples)\<close>, from index \<open>i\<close>.\<close>

fun log_examples :: "nat \<Rightarrow> example list \<Rightarrow> 'o event list" where
  "log_examples i [] = []"
| "log_examples i (e # es) =
     (case example_texts (zip (splitlines (source_model e)) (splitlines (optimized_model e)))
             ([], [], []) of
        (ref_text, actual_text, diff) \<Rightarrow>
          [LogInfo (LStr (replicate 86 CHR ''-'')) [],
           LogInfo (LStr (''## Reference text %d:'' @ [CHR 0x0A] @ ''%s''))
             [LInt (int i + 1), LStr ref_text],
           LogInfo (LStr (''## Actual text %d:'' @ [CHR 0x0A] @ ''%s''))
             [LInt (int i + 1), LStr actual_text],
           LogInfo (LStr ''## Diff %d: '') [LInt (int i + 1)],
           LogInfo (LStr diff) []]
          @ log_examples (Suc i) es)"

text \<open>Lines 271 to 289: the view of the worst examples, when \<^verbatim>\<open>args.verbose\<close> is set.\<close>

definition main_verbose :: "('o, 'w) env \<Rightarrow> args \<Rightarrow> 'o \<Rightarrow> (unit, 'o, 'w) io" where
  "main_verbose E a evaluator =
     (if verbose a then
        (let metric_of_interest = ''similarity'' in
         io_bind (call (WorstExamples evaluator 5 metric_of_interest)
                    (worst_examples E evaluator 5 metric_of_interest)) (\<lambda>worst.
         (\<lambda>w. (Inr (), w, log_examples 0 worst))))
      else io_return ())"

text \<open>\<^verbatim>\<open>main\<close>, on the namespace that \<^verbatim>\<open>parse_args\<close> returned.\<close>

definition main :: "('o, 'w) env \<Rightarrow> args \<Rightarrow> (unit, 'o, 'w) io" where
  "main E args0 =
     io_bind (io_lift (check_args args0)) (\<lambda>a.
     io_bind (load_prompts E a) (\<lambda>prompts.
     io_bind (load_tokenizer E a) (\<lambda>tok.
     io_bind (main_evaluator E a prompts tok) (\<lambda>evaluator.
     io_bind (main_target E a evaluator) (\<lambda>_.
     main_verbose E a evaluator)))))"

subsection \<open>A simulated world\<close>

text \<open>
  A small world for running the model on concrete command lines: objects are named by
  strings, the world is the list of paths that exist, every library call succeeds,
  except that the model named \<open>legacy\<close> needs an explicit configuration, and writing a
  file or making a directory adds its path.
\<close>

definition sim_env :: "(string, string list) env" where
  "sim_env =
     \<lparr> load_dataset = (\<lambda>path name spl w.
         (Inr [''questions'' \<mapsto> [''q1'', ''q2''], ''context'' \<mapsto> [''c1'']], w)),
       tokenizer_from_pretrained = (\<lambda>mid w.
         (case mid of None \<Rightarrow> Inl (OtherError ''no id'') | Some m \<Rightarrow> Inr (''tokenizer:'' @ m), w)),
       path_exists = (\<lambda>p w. (p \<in> set w, w)),
       hf_from_pretrained = (\<lambda>mid dev w.
         (case mid of None \<Rightarrow> Inl (OtherError ''no id'') | Some m \<Rightarrow> Inr (''hf:'' @ m), w)),
       json_load = (\<lambda>p w. (Inr (''json:'' @ p), w)),
       ov_from_pretrained = (\<lambda>mid config use_cache dev opts w.
         (case mid of
            None \<Rightarrow> Inl (OtherError ''no id'')
          | Some m \<Rightarrow>
              if m = ''legacy'' \<and> config = None then Inl (ValueError ''unknown model type'')
              else Inr (''ov:'' @ m), w)),
       auto_config_from_pretrained = (\<lambda>mid w.
         (case mid of None \<Rightarrow> Inl (OtherError ''no id'') | Some m \<Rightarrow> Inr (''config:'' @ m), w)),
       evaluator_init = (\<lambda>base gt prompts tok enc n lang w. (Inr ''evaluator'', w)),
       dump_gt = (\<lambda>ev p w. (Inr (), p # w)),
       score = (\<lambda>ev m w. (Inr (''per_question'', ''metrics''), w)),
       mkdir = (\<lambda>p w. (Inr (), p # w)),
       data_frame = (\<lambda>x w. (Inr (''df:'' @ x), w)),
       to_csv = (\<lambda>df p w. (Inr (), p # w)),
       worst_examples = (\<lambda>ev k metric w.
         (Inr [\<lparr> source_model = ''a'' @ [CHR 0x0A, CHR 0x0A] @ ''b'',
                 optimized_model = ''a'' @ [CHR 0x0A, CHR 0x0A] @ ''c'' @ [CHR 0x0A] @ ''d'' \<rparr>], w)) \<rparr>"

section \<open>Vocabulary of the properties\<close>

subsection \<open>Invariants of the matcher\<close>

text \<open>
  The bounds that keep the indices of the matcher inside the two ranges. A row of
  \<open>j2len\<close> is in order for the bound \<open>c\<close> and the lower end \<open>blo\<close> when every length \<open>v\<close> it
  stores at a position \<open>j\<close> is at most \<open>c\<close> and fits between \<open>blo\<close> and \<open>j\<close>.
\<close>

definition row_ok :: "nat \<Rightarrow> nat \<Rightarrow> (nat \<rightharpoonup> nat) \<Rightarrow> bool" where
  "row_ok c blo m = (\<forall>j v. m j = Some v \<longrightarrow> v \<le> c \<and> blo \<le> j \<and> v \<le> Suc j - blo)"

text \<open>The best match so far is the initial one, or lies in \<open>a[alo:c]\<close> and in \<open>b[blo:bhi]\<close>.\<close>

fun best_in :: "nat \<Rightarrow> nat \<Rightarrow> nat \<Rightarrow> nat \<Rightarrow> match \<Rightarrow> bool" where
  "best_in alo c blo bhi (besti, bestj, bestsize) =
     ((besti = alo \<and> bestj = blo \<and> bestsize = 0)
      \<or> (alo \<le> besti \<and> besti + bestsize \<le> c \<and> blo \<le> bestj \<and> bestj + bestsize \<le> bhi))"

text \<open>
  A range of the queue of \<^verbatim>\<open>get_matching_blocks\<close>, and a matching block, that lie inside
  two sequences of the lengths \<open>la\<close> and \<open>lb\<close>.
\<close>

fun span_ok :: "nat \<Rightarrow> nat \<Rightarrow> span \<Rightarrow> bool" where
  "span_ok la lb (alo, ahi, blo, bhi) = (alo \<le> ahi \<and> ahi \<le> la \<and> blo \<le> bhi \<and> bhi \<le> lb)"

fun block_ok :: "nat \<Rightarrow> nat \<Rightarrow> match \<Rightarrow> bool" where
  "block_ok la lb (i, j, k) = (i + k \<le> la \<and> j + k \<le> lb)"

text \<open>The positions of \<open>c\<close> in \<open>s\<close>, in increasing order.\<close>

definition positions :: "string \<Rightarrow> char \<Rightarrow> nat list" where
  "positions s c = [k \<leftarrow> [0..<length s]. s ! k = c]"

text \<open>The length \<open>k\<close> that the inner loop stores for position \<open>j\<close>, and its update of the best match.\<close>

definition next_len :: "(nat \<rightharpoonup> nat) \<Rightarrow> nat \<Rightarrow> nat" where
  "next_len j2len j = (if j = 0 then 0 else dict_get j2len (j - 1) 0) + 1"

fun upd_best :: "nat \<Rightarrow> (nat \<rightharpoonup> nat) \<Rightarrow> nat \<Rightarrow> match \<Rightarrow> match" where
  "upd_best i j2len j (bi, bj, bs) =
     (if next_len j2len j > bs then (Suc i - next_len j2len j, Suc j - next_len j2len j, next_len j2len j)
      else (bi, bj, bs))"

text \<open>The number of consecutive positions up to \<open>i\<close> whose elements satisfy \<open>P\<close>.\<close>

fun run_len :: "(char \<Rightarrow> bool) \<Rightarrow> string \<Rightarrow> nat \<Rightarrow> nat" where
  "run_len P s 0 = (if P (s ! 0) then 1 else 0)"
| "run_len P s (Suc i) = (if P (s ! Suc i) then run_len P s i + 1 else 0)"

definition prev_run :: "(char \<Rightarrow> bool) \<Rightarrow> string \<Rightarrow> nat \<Rightarrow> nat" where
  "prev_run P s i = (if i = 0 then 0 else run_len P s (i - 1))"

text \<open>The elements of \<open>s\<close> that keep their entry in \<open>b2j\<close>.\<close>

definition unpopular :: "string \<Rightarrow> char \<Rightarrow> bool" where
  "unpopular s c = (chain_b s c \<noteq> None)"

text \<open>
  The state of \<^verbatim>\<open>find_longest_match\<close> before row \<open>i\<close> when both sequences are \<open>s\<close>: the
  best match lies on the diagonal and is at least as long as every run seen.
\<close>

fun eq_inv :: "string \<Rightarrow> nat \<Rightarrow> (nat \<rightharpoonup> nat) \<Rightarrow> match \<Rightarrow> bool" where
  "eq_inv s i j2len (bi, bj, bs) =
     (bi = bj \<and> bi + bs \<le> i \<and> (\<forall>i' < i. run_len (unpopular s) s i' \<le> bs)
      \<and> (\<forall>j. dict_get j2len j 0 \<le> prev_run (unpopular s) s i
             \<and> dict_get j2len j 0 \<le> run_len (unpopular s) s j)
      \<and> dict_get j2len (i - 1) 0 = prev_run (unpopular s) s i)"

subsection \<open>The words of the claims\<close>

text \<open>
  The capital letters among the code points below 256 and, at the same positions, their
  lower-case letters, as \<^verbatim>\<open>str.lower\<close> pairs them.
\<close>

definition capital_letters :: string where
  "capital_letters =
     ''ABCDEFGHIJKLMNOPQRSTUVWXYZ''
     @ [CHR 0xC0, CHR 0xC1, CHR 0xC2, CHR 0xC3, CHR 0xC4, CHR 0xC5, CHR 0xC6, CHR 0xC7,
        CHR 0xC8, CHR 0xC9, CHR 0xCA, CHR 0xCB, CHR 0xCC, CHR 0xCD, CHR 0xCE, CHR 0xCF,
        CHR 0xD0, CHR 0xD1, CHR 0xD2, CHR 0xD3, CHR 0xD4, CHR 0xD5, CHR 0xD6, CHR 0xD8,
        CHR 0xD9, CHR 0xDA, CHR 0xDB, CHR 0xDC, CHR 0xDD, CHR 0xDE]"

definition small_letters :: string where
  "small_letters =
     ''abcdefghijklmnopqrstuvwxyz''
     @ [CHR 0xE0, CHR 0xE1, CHR 0xE2, CHR 0xE3, CHR 0xE4, CHR 0xE5, CHR 0xE6, CHR 0xE7,
        CHR 0xE8, CHR 0xE9, CHR 0xEA, CHR 0xEB, CHR 0xEC, CHR 0xED, CHR 0xEE, CHR 0xEF,
        CHR 0xF0, CHR 0xF1, CHR 0xF2, CHR 0xF3, CHR 0xF4, CHR 0xF5, CHR 0xF6, CHR 0xF8,
        CHR 0xF9, CHR 0xFA, CHR 0xFB, CHR 0xFC, CHR 0xFD, CHR 0xFE]"

text \<open>A string in lower case: every capital letter replaced by its lower-case letter.\<close>

definition lowercased :: "string \<Rightarrow> string" where
  "lowercased s =
     map (\<lambda>c. case map_of (zip capital_letters small_letters) c of Some l \<Rightarrow> l | None \<Rightarrow> c) s"

text \<open>
  The substring \<^verbatim>\<open>s[lo:hi]\<close>: the characters of \<open>s\<close> at the positions from \<open>lo\<close> up to, and
  without, \<open>hi\<close>, as many of them as \<open>s\<close> has.
\<close>

definition substring :: "string \<Rightarrow> nat \<Rightarrow> nat \<Rightarrow> string" where
  "substring s lo hi = map (\<lambda>p. s ! p) [lo..<min hi (length s)]"

text \<open>
  A string wrapped in the green markers, and in the red markers: the tags of
  \<^verbatim>\<open>loguru\<close> when \<open>lc\<close> holds, the escape sequences of the terminal otherwise.
\<close>

definition in_green :: "bool \<Rightarrow> string \<Rightarrow> string" where
  "in_green lc s =
     (if lc then ''<GREEN><black>'' @ s @ ''</black></GREEN>''
      else [CHR 0x1B] @ ''[38;5;16;48;5;2m'' @ s @ [CHR 0x1B] @ ''[0m'')"

definition in_red :: "bool \<Rightarrow> string \<Rightarrow> string" where
  "in_red lc s =
     (if lc then ''<RED><black>'' @ s @ ''</black></RED>''
      else [CHR 0x1B] @ ''[38;5;16;48;5;1m'' @ s @ [CHR 0x1B] @ ''[0m'')"

text \<open>
  The piece of the output that the claim assigns to one opcode: \<^verbatim>\<open>a[a0:a1]\<close> for
  \<open>equal\<close>, \<^verbatim>\<open>b[b0:b1]\<close> in green for \<open>insert\<close>, \<^verbatim>\<open>a[a0:a1]\<close> in red for \<open>delete\<close>, and
  for \<open>replace\<close> \<^verbatim>\<open>b[b0:b1]\<close> in green followed by \<^verbatim>\<open>a[a0:a1]\<close> in red.
\<close>

fun opcode_piece :: "string \<Rightarrow> string \<Rightarrow> bool \<Rightarrow> opcode \<Rightarrow> string" where
  "opcode_piece a b lc (tag, a0, a1, b0, b1) =
     (if tag = ''equal'' then substring a a0 a1
      else if tag = ''insert'' then in_green lc (substring b b0 b1)
      else if tag = ''delete'' then in_red lc (substring a a0 a1)
      else if tag = ''replace'' then in_green lc (substring b b0 b1) @ in_red lc (substring a a0 a1)
      else [])"

text \<open>
  The path of the file called \<open>name\<close> in the directory \<open>dir\<close>, whose name is not empty:
  the two joined by one slash, which a directory name ending in a slash already has.
\<close>

definition file_in :: "string \<Rightarrow> string \<Rightarrow> string" where
  "file_in dir name = (if last dir = CHR ''/'' then dir @ name else dir @ ''/'' @ name)"

text \<open>The four tags of an opcode.\<close>

definition known_tag :: "opcode \<Rightarrow> bool" where
  "known_tag op = (fst op \<in> set [''equal'', ''insert'', ''delete'', ''replace''])"

text \<open>
  What the claim says is logged for the example with index \<open>i\<close>: over the pairs of the
  zipped lines that are not both empty, the reference lines, the actual lines and the
  diffs of the pairs, each followed by a newline.
\<close>

definition example_view :: "nat \<Rightarrow> example \<Rightarrow> 'o event list" where
  "example_view i e =
     (let pairs = filter (\<lambda>(l1, l2). \<not> (l1 = [] \<and> l2 = []))
                    (zip (splitlines (source_model e)) (splitlines (optimized_model e)))
      in [LogInfo (LStr (replicate 86 CHR ''-'')) [],
          LogInfo (LStr (''## Reference text %d:'' @ [CHR 0x0A] @ ''%s''))
            [LInt (int i + 1), LStr (concat (map (\<lambda>(l1, l2). l1 @ [CHR 0x0A]) pairs))],
          LogInfo (LStr (''## Actual text %d:'' @ [CHR 0x0A] @ ''%s''))
            [LInt (int i + 1), LStr (concat (map (\<lambda>(l1, l2). l2 @ [CHR 0x0A]) pairs))],
          LogInfo (LStr ''## Diff %d: '') [LInt (int i + 1)],
          LogInfo (LStr (concat (map (\<lambda>(l1, l2). diff_strings l1 l2 False @ [CHR 0x0A]) pairs))) []])"

subsection \<open>Classes of events\<close>

text \<open>The events that \<^verbatim>\<open>load_model\<close> can emit.\<close>

fun is_loading :: "'o event \<Rightarrow> bool" where
  "is_loading (LogInfo msg as) = (msg = LStr ''Using HF model'' \<and> as = [])"
| "is_loading (HFFromPretrained mid dev) = True"
| "is_loading (JsonLoad p) = True"
| "is_loading (OVFromPretrained mid config uc dev opts) = True"
| "is_loading (AutoConfigFromPretrained mid) = True"
| "is_loading e = False"

text \<open>The events of \<^verbatim>\<open>load_prompts\<close> and \<^verbatim>\<open>load_tokenizer\<close>.\<close>

fun is_setup :: "'o event \<Rightarrow> bool" where
  "is_setup (LoadDataset path name spl) = True"
| "is_setup (TokenizerFromPretrained mid) = True"
| "is_setup e = False"

text \<open>The events that make the output directory and write the tables.\<close>

fun is_output :: "'o event \<Rightarrow> bool" where
  "is_output (Mkdir p) = True"
| "is_output (DataFrame x) = True"
| "is_output (ToCsv df p) = True"
| "is_output e = False"

text \<open>The events of the evaluator stage.\<close>

fun is_evaluator_event :: "'o event \<Rightarrow> bool" where
  "is_evaluator_event (PathExists p r) = True"
| "is_evaluator_event (EvaluatorInit base gt prompts tok enc n lang) = True"
| "is_evaluator_event (DumpGt ev p) = True"
| "is_evaluator_event (Del name) = True"
| "is_evaluator_event e = is_loading e"

text \<open>The events of the verbose stage.\<close>

fun is_view_event :: "'o event \<Rightarrow> bool" where
  "is_view_event (WorstExamples ev k metric) = True"
| "is_view_event (LogInfo msg as) = True"
| "is_view_event e = False"

text \<open>The calls of \<^verbatim>\<open>evaluator.score\<close> and of \<^verbatim>\<open>evaluator.worst_examples\<close>.\<close>

fun is_score :: "'o event \<Rightarrow> bool" where
  "is_score (Score ev m) = True"
| "is_score e = False"

fun is_worst :: "'o event \<Rightarrow> bool" where
  "is_worst (WorstExamples ev k metric) = True"
| "is_worst e = False"

subsection \<open>Sample runs in the simulated world\<close>

text \<open>A run that generates the ground truth: base model and \<^verbatim>\<open>--gt-data gt.csv\<close>, no file yet.\<close>

definition run_dump_args :: args where
  "run_dump_args = parse_args_defaults\<lparr>base_model := Some ''gpt2'', gt_data := Some ''gt.csv''\<rparr>"

definition run_dump_trace :: "string event list" where
  "run_dump_trace =
     [TokenizerFromPretrained (Some ''gpt2''), PathExists ''gt.csv'' False,
         OVFromPretrained (Some ''gpt2'') None False ''CPU'' None,
         EvaluatorInit (Some ''ov:gpt2'') None None ''tokenizer:gpt2''
           ''sentence-transformers/all-mpnet-base-v2'' None None,
         DumpGt ''evaluator'' ''gt.csv'', Del ''base_model'']"

text \<open>A run with both models and \<^verbatim>\<open>--output out\<close>, the directory not yet there.\<close>

definition run_tables_args :: args where
  "run_tables_args =
     parse_args_defaults\<lparr>base_model := Some ''gpt2'', target_model := Some ''gpt2-int8'',
       output_dir := Some ''out''\<rparr>"

definition run_tables_trace :: "string event list" where
  "run_tables_trace =
     [TokenizerFromPretrained (Some ''gpt2''),
      OVFromPretrained (Some ''gpt2'') None False ''CPU'' None,
      EvaluatorInit (Some ''ov:gpt2'') None None ''tokenizer:gpt2''
        ''sentence-transformers/all-mpnet-base-v2'' None None,
      Del ''base_model'',
      OVFromPretrained (Some ''gpt2-int8'') None False ''CPU'' None,
      Score ''evaluator'' ''ov:gpt2-int8'',
      LogInfo (LStr ''Metrics for model: %s'') [LStr ''gpt2-int8''],
      LogInfo (LObj ''metrics'') [],
      PathExists ''out'' False, Mkdir ''out'',
      DataFrame ''per_question'', ToCsv ''df:per_question'' ''out/metrics_per_qustion.csv'',
      DataFrame ''metrics'', ToCsv ''df:metrics'' ''out/metrics.csv'']"

text \<open>
  A run with both models and \<^verbatim>\<open>--verbose\<close>. The one worst example has the reference lines
  \<open>a\<close>, the empty line and \<open>b\<close>, and the actual lines \<open>a\<close>, the empty line, \<open>c\<close> and \<open>d\<close>.
\<close>

definition run_view_args :: args where
  "run_view_args =
     parse_args_defaults\<lparr>base_model := Some ''gpt2'', target_model := Some ''gpt2-int8'',
       verbose := True\<rparr>"

definition run_view_trace :: "string event list" where
  "run_view_trace =
     [TokenizerFromPretrained (Some ''gpt2''),
      OVFromPretrained (Some ''gpt2'') None False ''CPU'' None,
      EvaluatorInit (Some ''ov:gpt2'') None None ''tokenizer:gpt2''
        ''sentence-transformers/all-mpnet-base-v2'' None None,
      Del ''base_model'',
      OVFromPretrained (Some ''gpt2-int8'') None False ''CPU'' None,
      Score ''evaluator'' ''ov:gpt2-int8'',
      LogInfo (LStr ''Metrics for model: %s'') [LStr ''gpt2-int8''],
      LogInfo (LObj ''metrics'') [],
      WorstExamples ''evaluator'' 5 ''similarity'',
      LogInfo (LStr (replicate 86 CHR ''-'')) [],
      LogInfo (LStr (''## Reference text %d:'' @ [CHR 0x0A] @ ''%s''))
        [LInt 1, LStr (''a'' @ [CHR 0x0A] @ ''b'' @ [CHR 0x0A])],
      LogInfo (LStr (''## Actual text %d:'' @ [CHR 0x0A] @ ''%s''))
        [LInt 1, LStr (''a'' @ [CHR 0x0A] @ ''c'' @ [CHR 0x0A])],
      LogInfo (LStr ''## Diff %d: '') [LInt 1],
      LogInfo (LStr (''a'' @ [CHR 0x0A]
                     @ (CHR 0x1B # ''[38;5;16;48;5;2m'') @ ''c'' @ (CHR 0x1B # ''[0m'')
                     @ (CHR 0x1B # ''[38;5;16;48;5;1m'') @ ''b'' @ (CHR 0x1B # ''[0m'')
                     @ [CHR 0x0A])) []]"

section \<open>Properties\<close>

subsection \<open>The matcher stays inside the sequences, and its block loop terminates\<close>

declare flm_outer.simps [simp del] extend_down.simps [simp del] extend_up.simps [simp del]

lemma flm_inner_step:
  "\<not> j < blo \<Longrightarrow> \<not> bhi \<le> j \<Longrightarrow>
   flm_inner i blo bhi j2len (j # js) (new, (bi, bj, bs)) =
   flm_inner i blo bhi j2len js
     (new(j \<mapsto> (if j = 0 then 0 else dict_get j2len (j - 1) 0) + 1),
      if (if j = 0 then 0 else dict_get j2len (j - 1) 0) + 1 > bs
      then (Suc i - ((if j = 0 then 0 else dict_get j2len (j - 1) 0) + 1),
            Suc j - ((if j = 0 then 0 else dict_get j2len (j - 1) 0) + 1),
            (if j = 0 then 0 else dict_get j2len (j - 1) 0) + 1)
      else (bi, bj, bs))"
  by (simp only: flm_inner.simps Let_def if_False)

text \<open>
  The length \<open>k\<close> computed at row \<open>i\<close> and position \<open>j\<close> is at most \<open>i + 1 - alo\<close> and
  \<open>j + 1 - blo\<close>: the subtractions \<open>Suc i - k\<close> and \<open>Suc j - k\<close> of the model are those of
  the integers.
\<close>

lemma next_len_bounds:
  assumes "alo \<le> i" "row_ok (i - alo) blo j2len" "blo \<le> j"
  shows "(if j = 0 then 0 else dict_get j2len (j - 1) 0) + 1 \<le> Suc i - alo"
    and "(if j = 0 then 0 else dict_get j2len (j - 1) 0) + 1 \<le> Suc j - blo"
proof -
  have "dict_get j2len (j - 1) 0 \<le> i - alo"
  proof (cases "j2len (j - 1)")
    case None
    then show ?thesis by (simp add: dict_get_def)
  next
    case (Some v)
    with assms(2) have "v \<le> i - alo" by (auto simp: row_ok_def)
    with Some show ?thesis by (simp add: dict_get_def)
  qed
  with assms(1) show "(if j = 0 then 0 else dict_get j2len (j - 1) 0) + 1 \<le> Suc i - alo"
    by auto
  show "(if j = 0 then 0 else dict_get j2len (j - 1) 0) + 1 \<le> Suc j - blo"
  proof (cases "j2len (j - 1)")
    case None
    with assms(3) show ?thesis by (auto simp: dict_get_def)
  next
    case (Some v)
    with assms(2) have "blo \<le> j - 1" "v \<le> Suc (j - 1) - blo"
      by (auto simp: row_ok_def)
    with Some assms(3) show ?thesis by (auto simp: dict_get_def)
  qed
qed

lemma flm_inner_bounds:
  assumes "alo \<le> i" "row_ok (i - alo) blo j2len"
  shows "row_ok (Suc i - alo) blo new \<Longrightarrow> best_in alo (Suc i) blo bhi best \<Longrightarrow>
         flm_inner i blo bhi j2len js (new, best) = (new', best') \<Longrightarrow>
         row_ok (Suc i - alo) blo new' \<and> best_in alo (Suc i) blo bhi best'"
proof (induction js arbitrary: new best)
  case Nil
  then show ?case by simp
next
  case (Cons j js)
  obtain bi bj bs where best: "best = (bi, bj, bs)" by (cases best)
  define k where "k = (if j = 0 then 0 else dict_get j2len (j - 1) 0) + 1"
  show ?case
  proof (cases "j < blo")
    case True
    with Cons.prems(3) best have "flm_inner i blo bhi j2len js (new, best) = (new', best')"
      by simp
    from Cons.IH[OF Cons.prems(1,2) this] show ?thesis .
  next
    case nlo: False
    show ?thesis
    proof (cases "j \<ge> bhi")
      case True
      with Cons.prems nlo best show ?thesis by auto
    next
      case False
      from nlo have "blo \<le> j" by simp
      from next_len_bounds[OF assms this]
      have k: "k \<le> Suc i - alo" "k \<le> Suc j - blo" by (simp_all add: k_def)
      have k1: "1 \<le> k" by (simp add: k_def)
      have r: "row_ok (Suc i - alo) blo (new(j \<mapsto> k))"
        using Cons.prems(1) k nlo by (auto simp: row_ok_def)
      have b: "best_in alo (Suc i) blo bhi
                 (if k > bs then (Suc i - k, Suc j - k, k) else (bi, bj, bs))"
        using Cons.prems(2) k k1 assms(1) best nlo False by auto
      from Cons.prems(3)
      have "flm_inner i blo bhi j2len js
              (new(j \<mapsto> k), if k > bs then (Suc i - k, Suc j - k, k) else (bi, bj, bs)) = (new', best')"
        unfolding best flm_inner_step[OF nlo False] k_def .
      from Cons.IH[OF r b this] show ?thesis .
    qed
  qed
qed

lemma best_in_mono: "best_in alo c blo bhi best \<Longrightarrow> c \<le> d \<Longrightarrow> best_in alo d blo bhi best"
  by (cases best) auto

lemma flm_outer_bounds:
  "alo \<le> i \<Longrightarrow> row_ok (i - alo) blo j2len \<Longrightarrow> best_in alo i blo bhi best \<Longrightarrow>
   best_in alo (max i ahi) blo bhi (flm_outer a b2j ahi blo bhi i j2len best)"
proof (induction a b2j ahi blo bhi i j2len best rule: flm_outer.induct)
  case (1 a b2j ahi blo bhi i j2len best)
  show ?case
  proof (cases "i < ahi")
    case False
    with "1.prems" show ?thesis by (subst flm_outer.simps) simp
  next
    case True
    obtain new best' where inner:
      "flm_inner i blo bhi j2len (dict_get b2j (a ! i) []) (Map.empty, best) = (new, best')"
      by (cases "flm_inner i blo bhi j2len (dict_get b2j (a ! i) []) (Map.empty, best)")
    have e: "row_ok (Suc i - alo) blo Map.empty" by (simp add: row_ok_def)
    have b: "best_in alo (Suc i) blo bhi best" using "1.prems"(3) by (rule best_in_mono) simp
    from flm_inner_bounds[OF "1.prems"(1,2) e b inner]
    have new: "row_ok (Suc i - alo) blo new" and best': "best_in alo (Suc i) blo bhi best'"
      by auto
    have "alo \<le> Suc i" using "1.prems"(1) by simp
    from "1.IH"[OF True inner[symmetric] this new best']
    have "best_in alo (max (Suc i) ahi) blo bhi (flm_outer a b2j ahi blo bhi (Suc i) new best')" .
    moreover have "max (Suc i) ahi = max i ahi" using True by simp
    moreover have "flm_outer a b2j ahi blo bhi i j2len best = flm_outer a b2j ahi blo bhi (Suc i) new best'"
      using True inner by (subst flm_outer.simps) simp
    ultimately show ?thesis by simp
  qed
qed

lemma extend_down_bounds:
  "best_in alo c blo bhi best \<Longrightarrow> best_in alo c blo bhi (extend_down P a b alo blo best)"
proof (induction P a b alo blo best rule: extend_down.induct)
  case (1 P a b alo blo besti bestj bestsize)
  show ?case
  proof (cases "besti > alo \<and> bestj > blo \<and> P (b ! (bestj - 1)) \<and> a ! (besti - 1) = b ! (bestj - 1)")
    case True
    have "best_in alo c blo bhi (besti - 1, bestj - 1, bestsize + 1)"
      using "1.prems" True by auto
    from "1.IH"[OF True this] True show ?thesis by (subst extend_down.simps) simp
  next
    case False
    with "1.prems" show ?thesis by (subst extend_down.simps) auto
  qed
qed

lemma extend_up_bounds:
  "best_in alo ahi blo bhi best \<Longrightarrow> best_in alo ahi blo bhi (extend_up P a b ahi bhi best)"
proof (induction P a b ahi bhi best rule: extend_up.induct)
  case (1 P a b ahi bhi besti bestj bestsize)
  show ?case
  proof (cases "besti + bestsize < ahi \<and> bestj + bestsize < bhi \<and> P (b ! (bestj + bestsize))
         \<and> a ! (besti + bestsize) = b ! (bestj + bestsize)")
    case True
    have "best_in alo ahi blo bhi (besti, bestj, bestsize + 1)"
      using "1.prems" True by auto
    from "1.IH"[OF True this] True show ?thesis by (subst extend_up.simps) simp
  next
    case False
    with "1.prems" show ?thesis by (subst extend_up.simps) auto
  qed
qed

text \<open>A match of positive size lies inside the two ranges it was searched in.\<close>

lemma find_longest_match_bounds:
  assumes "find_longest_match a b b2j alo ahi blo bhi = (i, j, k)" "k \<noteq> 0"
  shows "alo \<le> i \<and> i + k \<le> ahi \<and> blo \<le> j \<and> j + k \<le> bhi"
proof -
  have 0: "best_in alo alo blo bhi (alo, blo, 0)" by simp
  have "best_in alo ahi blo bhi (flm_outer a b2j ahi blo bhi alo Map.empty (alo, blo, 0))"
  proof (cases "alo \<le> ahi")
    case True
    have "best_in alo (max alo ahi) blo bhi (flm_outer a b2j ahi blo bhi alo Map.empty (alo, blo, 0))"
      by (rule flm_outer_bounds[OF _ _ 0]) (simp_all add: row_ok_def)
    with True show ?thesis by (simp add: max_def)
  next
    case False
    then show ?thesis by (subst flm_outer.simps) simp
  qed
  then have "best_in alo ahi blo bhi (find_longest_match a b b2j alo ahi blo bhi)"
    unfolding find_longest_match_def Let_def
    by (intro extend_up_bounds extend_down_bounds)
  with assms show ?thesis by simp
qed

lemma gmb_measure_step:
  fixes queue :: "span list"
  assumes "queue \<noteq> []" "last queue = (alo, ahi, blo, bhi)" "alo \<le> i" "i + k \<le> ahi" "k \<noteq> 0"
  shows "(\<Sum>(alo, ahi, blo, bhi)\<leftarrow>butlast queue
              @ (if alo < i \<and> blo < j then [(alo, i, blo, j)] else [])
              @ (if i + k < ahi \<and> j + k < bhi then [(i + k, ahi, j + k, bhi)] else []).
            2 * (ahi - alo) + 1)
         < (\<Sum>(alo, ahi, blo, bhi)\<leftarrow>queue. 2 * (ahi - alo) + 1)"
proof -
  have q: "queue = butlast queue @ [(alo, ahi, blo, bhi)]"
    using assms(1,2) by (metis append_butlast_last_id)
  show ?thesis
    using assms(3,4,5) by (subst (2) q) auto
qed

lemma gmb_measure_pop:
  fixes queue :: "span list"
  assumes "queue \<noteq> []"
  shows "(\<Sum>(alo, ahi, blo, bhi)\<leftarrow>butlast queue. 2 * (ahi - alo) + 1)
         < (\<Sum>(alo, ahi, blo, bhi)\<leftarrow>queue. 2 * (ahi - alo) + (1::nat))"
proof -
  have q: "queue = butlast queue @ [last queue]"
    using assms by simp
  show ?thesis
    by (subst (2) q) (auto simp del: append_butlast_last_id split: prod.splits)
qed

termination gmb_loop
  apply (relation "measure (\<lambda>(a, b, b2j, queue, matching_blocks).
                   sum_list (map (\<lambda>(alo, ahi, blo, bhi). 2 * (ahi - alo) + 1) queue))")
  subgoal by simp
  subgoal for a b b2j queue matching_blocks alo y ahi ya blo bhi i yc j k
    using find_longest_match_bounds[of a b b2j alo ahi blo bhi i j k]
          gmb_measure_step[of queue alo ahi blo bhi i k j]
    by simp
  subgoal for a b b2j queue
    using gmb_measure_pop[of queue] by simp
  done

declare gmb_loop.simps [simp del]

lemma gmb_loop_in_range:
  "list_all (span_ok la lb) queue \<Longrightarrow> list_all (block_ok la lb) blocks \<Longrightarrow>
   list_all (block_ok la lb) (gmb_loop a b b2j queue blocks)"
proof (induction a b b2j queue blocks rule: gmb_loop.induct)
  case (1 a b b2j queue blocks)
  show ?case
  proof (cases "queue = []")
    case True
    with "1.prems" show ?thesis by (subst gmb_loop.simps) simp
  next
    case False
    obtain alo ahi blo bhi where l: "last queue = (alo, ahi, blo, bhi)"
      by (cases "last queue")
    obtain i j k where f: "find_longest_match a b b2j alo ahi blo bhi = (i, j, k)"
      by (cases "find_longest_match a b b2j alo ahi blo bhi")
    from "1.prems"(1) have allq: "\<forall>s \<in> set queue. span_ok la lb s"
      by (simp add: list_all_iff)
    then have bq: "list_all (span_ok la lb) (butlast queue)"
      by (auto simp: list_all_iff dest: in_set_butlastD)
    from allq last_in_set[OF False] l have sp: "span_ok la lb (alo, ahi, blo, bhi)"
      by (metis)
    show ?thesis
    proof (cases "k = 0")
      case True
      from "1.IH"(2)[OF False l[symmetric] refl refl f[symmetric] refl _ bq "1.prems"(2)] True
      have "list_all (block_ok la lb) (gmb_loop a b b2j (butlast queue) blocks)" by simp
      with False l f True show ?thesis by (subst gmb_loop.simps) simp
    next
      case nz: False
      from find_longest_match_bounds[OF f nz] sp
      have bnd: "alo \<le> i" "i + k \<le> ahi" "blo \<le> j" "j + k \<le> bhi" "ahi \<le> la" "bhi \<le> lb"
        by auto
      let ?q = "butlast queue
                  @ (if alo < i \<and> blo < j then [(alo, i, blo, j)] else [])
                  @ (if i + k < ahi \<and> j + k < bhi then [(i + k, ahi, j + k, bhi)] else [])"
      have q': "list_all (span_ok la lb) ?q" using bq bnd by auto
      have b': "list_all (block_ok la lb) (blocks @ [(i, j, k)])"
        using "1.prems"(2) bnd by auto
      from "1.IH"(1)[OF False l[symmetric] refl refl f[symmetric] refl _ q' b'] nz
      have "list_all (block_ok la lb) (gmb_loop a b b2j ?q (blocks @ [(i, j, k)]))" by simp
      with False l f nz show ?thesis by (subst gmb_loop.simps) simp
    qed
  qed
qed

lemma collapse_adjacent_in_range:
  "list_all (block_ok la lb) blocks \<Longrightarrow> block_ok la lb blk \<Longrightarrow>
   list_all (block_ok la lb) non_adjacent \<Longrightarrow>
   collapse_adjacent blocks blk non_adjacent = (blk', non_adjacent') \<Longrightarrow>
   block_ok la lb blk' \<and> list_all (block_ok la lb) non_adjacent'"
proof (induction blocks blk non_adjacent rule: collapse_adjacent.induct)
  case (1 blk non_adjacent)
  then show ?case by simp
next
  case (2 i2 j2 k2 blocks i1 j1 k1 non_adjacent)
  show ?case
  proof (cases "i1 + k1 = i2 \<and> j1 + k1 = j2")
    case True
    have "block_ok la lb (i1, j1, k1 + k2)" using "2.prems"(1) True by auto
    from "2.IH"(1)[OF True _ this "2.prems"(3)] "2.prems"(1,4) True show ?thesis by simp
  next
    case False
    have b: "block_ok la lb (i2, j2, k2)" using "2.prems"(1) by simp
    have n: "list_all (block_ok la lb)
               (if k1 \<noteq> 0 then non_adjacent @ [(i1, j1, k1)] else non_adjacent)"
      using "2.prems"(2,3) by simp
    from "2.IH"(2)[OF False _ b n] "2.prems"(1,4) False show ?thesis by simp
  qed
qed

lemma get_matching_blocks_in_range:
  "list_all (block_ok (length a) (length b)) (get_matching_blocks a b)"
proof -
  let ?P = "block_ok (length a) (length b)"
  have "list_all ?P (gmb_loop a b (chain_b b) [(0, length a, 0, length b)] [])"
    by (rule gmb_loop_in_range) simp_all
  then have sorted: "list_all ?P (sort (gmb_loop a b (chain_b b) [(0, length a, 0, length b)] []))"
    by (simp add: list_all_iff)
  obtain blk na where c:
    "collapse_adjacent (sort (gmb_loop a b (chain_b b) [(0, length a, 0, length b)] [])) (0, 0, 0) []
       = (blk, na)"
    by (cases "collapse_adjacent (sort (gmb_loop a b (chain_b b) [(0, length a, 0, length b)] []))
                 (0, 0, 0) []")
  from collapse_adjacent_in_range[OF sorted _ _ c] have "?P blk" "list_all ?P na" by simp_all
  then show ?thesis
    unfolding get_matching_blocks_def Let_def c by (cases blk) simp
qed

subsection \<open>Sequencing\<close>

lemma io_bind_Inr:
  "io_bind m f w = (Inr y, w', t) \<longleftrightarrow>
     (\<exists>x w1 t1 t2. m w = (Inr x, w1, t1) \<and> f x w1 = (Inr y, w', t2) \<and> t = t1 @ t2)"
  by (auto simp: io_bind_def split: prod.splits sum.splits)

subsection \<open>Argument checks\<close>

text \<open>
  C8. \<^verbatim>\<open>check_args\<close> raises \<^verbatim>\<open>AssertionError\<close> exactly when the base model and the
  target model are both \<open>None\<close>, or the base model and the ground-truth path are both
  \<open>None\<close>; otherwise it returns and the namespace is as it was. So after a normal return
  there is at least one model id, and a base model id whenever there is no ground-truth
  path.
\<close>

theorem check_args_spec:
  "check_args a =
     (if (base_model a = None \<and> target_model a = None) \<or> (base_model a = None \<and> gt_data a = None)
      then Inl AssertionError else Inr a)
   \<and> (\<forall>a'. check_args a = Inr a' \<longrightarrow>
          a' = a \<and> (base_model a \<noteq> None \<or> target_model a \<noteq> None)
          \<and> (gt_data a = None \<longrightarrow> base_model a \<noteq> None))"
  by (auto simp: check_args_def)

theorem check_args_spec_witness:
  "check_args (parse_args_defaults\<lparr>base_model := Some ''gpt2''\<rparr>)
     = Inr (parse_args_defaults\<lparr>base_model := Some ''gpt2''\<rparr>)
   \<and> gt_data (parse_args_defaults\<lparr>base_model := Some ''gpt2''\<rparr>) = None
   \<and> base_model (parse_args_defaults\<lparr>base_model := Some ''gpt2''\<rparr>) \<noteq> None"
  using check_args_spec [of "parse_args_defaults\<lparr>base_model := Some ''gpt2''\<rparr>"]
  by (simp add: parse_args_defaults_def)

subsection \<open>The tokenizer id\<close>

text \<open>
  C9. When the base model and the target model are not both \<open>None\<close> (what \<^verbatim>\<open>check_args\<close>
  establishes), \<^verbatim>\<open>load_tokenizer\<close> makes one call to \<^verbatim>\<open>AutoTokenizer.from_pretrained\<close>, and
  the id it passes is never \<open>None\<close>: it is \<^verbatim>\<open>args.tokenizer\<close> when set, else
  \<^verbatim>\<open>args.base_model\<close> when set, else \<^verbatim>\<open>args.target_model\<close>. The result is the library's
  answer for that id.
\<close>

theorem load_tokenizer_id:
  assumes "\<not> (base_model a = None \<and> target_model a = None)"
  shows "\<exists>m. (if tokenizer a \<noteq> None then tokenizer a
              else if base_model a \<noteq> None then base_model a
              else target_model a) = Some m
           \<and> snd (snd (load_tokenizer E a w)) = [TokenizerFromPretrained (Some m)]
           \<and> (fst (load_tokenizer E a w), fst (snd (load_tokenizer E a w))) =
               tokenizer_from_pretrained E (Some m) w"
  using assms by (auto simp: load_tokenizer_def call_def split: prod.splits)

theorem load_tokenizer_id_witness:
  "\<not> (base_model (parse_args_defaults\<lparr>target_model := Some ''gpt2-int8''\<rparr>) = None
        \<and> target_model (parse_args_defaults\<lparr>target_model := Some ''gpt2-int8''\<rparr>) = None)
   \<and> snd (snd (load_tokenizer sim_env (parse_args_defaults\<lparr>target_model := Some ''gpt2-int8''\<rparr>) []))
       = [TokenizerFromPretrained (Some ''gpt2-int8'')]"
proof -
  let ?a = "parse_args_defaults\<lparr>target_model := Some ''gpt2-int8''\<rparr>"
  have h: "\<not> (base_model ?a = None \<and> target_model ?a = None)" by simp
  from load_tokenizer_id [OF h, of sim_env "[]"]
  obtain m where m: "(if tokenizer ?a \<noteq> None then tokenizer ?a
              else if base_model ?a \<noteq> None then base_model ?a
              else target_model ?a) = Some m"
     and t: "snd (snd (load_tokenizer sim_env ?a [])) = [TokenizerFromPretrained (Some m)]"
    by blast
  from m have "m = ''gpt2-int8''" by (simp add: parse_args_defaults_def)
  with h t show ?thesis by simp
qed

subsection \<open>The matcher on two equal strings\<close>

lemma chain_b_index_lookup:
  "chain_b_index b i m c =
     (if c \<in> set b then Some (dict_get m c [] @ [k \<leftarrow> [i..<i + length b]. b ! (k - i) = c])
      else m c)"
proof (induction b arbitrary: i m)
  case Nil
  show ?case by simp
next
  case (Cons elt b)
  define F where "F = [k \<leftarrow> [Suc i..<Suc i + length b]. b ! (k - Suc i) = c]"
  define m' where "m' = m(elt \<mapsto> (case m elt of None \<Rightarrow> [] | Some indices \<Rightarrow> indices) @ [i])"
  have shift: "[k \<leftarrow> [Suc i..<Suc i + length b]. (elt # b) ! (k - i) = c] = F"
    unfolding F_def by (rule filter_cong) (auto simp: nth_Cons')
  have upt: "[i..<i + length (elt # b)] = i # [Suc i..<Suc i + length b]"
    using upt_conv_Cons[of i "i + length (elt # b)"] by simp
  have G: "[k \<leftarrow> [i..<i + length (elt # b)]. (elt # b) ! (k - i) = c]
             = (if elt = c then [i] else []) @ F"
    unfolding upt using shift by (auto simp del: upt_Suc add_Suc)
  have F0: "c \<notin> set b \<Longrightarrow> F = []"
    unfolding F_def by (auto simp: filter_empty_conv)
  have "chain_b_index (elt # b) i m c = chain_b_index b (Suc i) m' c"
    by (simp add: m'_def)
  also have "\<dots> = (if c \<in> set b then Some (dict_get m' c [] @ F) else m' c)"
    unfolding Cons.IH F_def ..
  also have "\<dots> = (if c \<in> set (elt # b)
                     then Some (dict_get m c [] @ [k \<leftarrow> [i..<i + length (elt # b)]. (elt # b) ! (k - i) = c])
                     else m c)"
    unfolding G using F0 by (auto simp: m'_def dict_get_def split: option.splits)
  finally show ?case .
qed

lemma positions_Nil: "c \<notin> set s \<Longrightarrow> positions s c = []"
  by (auto simp: positions_def filter_empty_conv)

lemma chain_b_get:
  "dict_get (chain_b s) c [] = (if chain_b s c = None then [] else positions s c)"
proof -
  have idx: "chain_b_index s 0 Map.empty c = (if c \<in> set s then Some (positions s c) else None)"
    by (simp add: chain_b_index_lookup positions_def dict_get_def)
  show ?thesis
    by (auto simp: chain_b_def Let_def idx dict_get_def positions_Nil split: option.splits)
qed

lemma positions_split:
  assumes "i < length s"
  shows "positions s (s ! i) =
           [k \<leftarrow> [0..<i]. s ! k = s ! i] @ i # [k \<leftarrow> [Suc i..<length s]. s ! k = s ! i]"
proof -
  have "[0..<length s] = [0..<i] @ i # [Suc i..<length s]"
    using assms upt_add_eq_append[of 0 i "length s - i"] upt_conv_Cons[of i "length s"] by simp
  then show ?thesis by (simp add: positions_def)
qed

lemma flm_inner_step':
  "\<not> j < blo \<Longrightarrow> \<not> bhi \<le> j \<Longrightarrow>
   flm_inner i blo bhi j2len (j # js) (new, (bi, bj, bs)) =
   flm_inner i blo bhi j2len js (new(j \<mapsto> next_len j2len j), upd_best i j2len j (bi, bj, bs))"
  by (simp only: flm_inner.simps Let_def if_False next_len_def upd_best.simps)

lemma flm_inner_in_range:
  "\<forall>j \<in> set js. blo \<le> j \<and> j < bhi \<Longrightarrow>
   flm_inner i blo bhi j2len js (new, best) =
     ((\<lambda>j. if j \<in> set js then Some (next_len j2len j) else new j), fold (upd_best i j2len) js best)"
proof (induction js arbitrary: new best)
  case Nil
  show ?case by simp
next
  case (Cons j js)
  obtain bi bj bs where best: "best = (bi, bj, bs)" by (cases best)
  have r: "\<not> j < blo" "\<not> bhi \<le> j" and rest: "\<forall>j \<in> set js. blo \<le> j \<and> j < bhi"
    using Cons.prems by auto
  have m: "(\<lambda>x. if x \<in> set js then Some (next_len j2len x) else (new(j \<mapsto> next_len j2len j)) x)
         = (\<lambda>x. if x \<in> set (j # js) then Some (next_len j2len x) else new x)"
    by (rule ext) auto
  show ?case
    unfolding best flm_inner_step'[OF r] Cons.IH[OF rest] m
    by (simp del: upd_best.simps)
qed

lemma fold_upd_best_keep:
  "\<forall>j \<in> set js. next_len j2len j \<le> bs \<Longrightarrow> fold (upd_best i j2len) js (bi, bj, bs) = (bi, bj, bs)"
  by (induction js) auto

lemma run_len_le: "run_len P s i \<le> Suc i"
  by (induction i) auto

lemma run_len_step: "run_len P s i = (if P (s ! i) then prev_run P s i + 1 else 0)"
  by (cases i) (auto simp: prev_run_def)

lemma prev_run_Suc: "prev_run P s (Suc i) = run_len P s i"
  by (simp add: prev_run_def)

lemma eq_inv_row:
  assumes i: "i < length s"
    and inv: "eq_inv s i j2len best"
    and inner: "flm_inner i 0 (length s) j2len (dict_get (chain_b s) (s ! i) []) (Map.empty, best)
                  = (new, best')"
  shows "eq_inv s (Suc i) new best'"
proof -
  obtain bi bj bs where best: "best = (bi, bj, bs)" by (cases best)
  let ?P = "unpopular s"
  let ?run = "run_len ?P s"
  let ?k = "next_len j2len"
  from inv have diag: "bi = bj" and fit: "bi + bs \<le> i"
    and seen: "\<And>i'. i' < i \<Longrightarrow> ?run i' \<le> bs"
    and row1: "\<And>j. dict_get j2len j 0 \<le> prev_run ?P s i"
    and row2: "\<And>j. dict_get j2len j 0 \<le> ?run j"
    and here: "dict_get j2len (i - 1) 0 = prev_run ?P s i"
    unfolding best by auto
  show ?thesis
  proof (cases "?P (s ! i)")
    case False
    then have "dict_get (chain_b s) (s ! i) [] = []"
      by (simp add: chain_b_get unpopular_def)
    with inner have new: "new = Map.empty" and best': "best' = best" by auto
    have "?run i = 0" using False by (simp add: run_len_step)
    then have "\<And>i'. i' < Suc i \<Longrightarrow> ?run i' \<le> bs"
      using seen by (metis less_Suc_eq zero_le)
    then show ?thesis
      unfolding new best' best using diag fit \<open>?run i = 0\<close>
      by (simp add: dict_get_def prev_run_Suc)
  next
    case True
    define js1 where "js1 = [k \<leftarrow> [0..<i]. s ! k = s ! i]"
    define js2 where "js2 = [k \<leftarrow> [Suc i..<length s]. s ! k = s ! i]"
    have js: "dict_get (chain_b s) (s ! i) [] = js1 @ i # js2"
      using True by (simp add: chain_b_get unpopular_def positions_split[OF i] js1_def js2_def)
    have range: "\<forall>j \<in> set (js1 @ i # js2). 0 \<le> j \<and> j < length s"
      using i by (auto simp: js1_def js2_def)
    have same: "\<And>j. j \<in> set (js1 @ i # js2) \<Longrightarrow> s ! j = s ! i"
      by (auto simp: js1_def js2_def)
    have runi: "?run i = prev_run ?P s i + 1"
      using True by (simp add: run_len_step)
    have k_le_i: "?k j \<le> ?run i" for j
      using row1[of "j - 1"] by (simp add: next_len_def runi)
    have k_le_j: "?k j \<le> ?run j" if "j \<in> set (js1 @ i # js2)" for j
    proof -
      have "?P (s ! j)" using same[OF that] True by simp
      then have "?run j = prev_run ?P s j + 1" by (simp add: run_len_step)
      then show ?thesis
        using row2[of "j - 1"] by (simp add: next_len_def prev_run_def)
    qed
    have k_i: "?k i = ?run i"
      using here by (simp add: next_len_def runi prev_run_def)
    have keep1: "fold (upd_best i j2len) js1 (bi, bj, bs) = (bi, bj, bs)"
    proof (rule fold_upd_best_keep, rule ballI)
      fix j assume j: "j \<in> set js1"
      then have "j < i" by (simp add: js1_def)
      from seen[OF this] k_le_j[of j] j show "?k j \<le> bs" by simp
    qed
    define best1 where "best1 = upd_best i j2len i (bi, bj, bs)"
    obtain ci cj cs where best1: "best1 = (ci, cj, cs)" by (cases best1)
    have c: "ci = cj" "ci + cs \<le> Suc i" "bs \<le> cs" "?run i \<le> cs"
      using best1 diag fit run_len_le[of ?P s i]
      by (auto simp: best1_def k_i split: if_splits)
    have keep2: "fold (upd_best i j2len) js2 (ci, cj, cs) = (ci, cj, cs)"
    proof (rule fold_upd_best_keep, rule ballI)
      fix j assume "j \<in> set js2"
      from k_le_i[of j] c(4) show "?k j \<le> cs" by simp
    qed
    have "flm_inner i 0 (length s) j2len (js1 @ i # js2) (Map.empty, best) =
            ((\<lambda>j. if j \<in> set (js1 @ i # js2) then Some (?k j) else None), (ci, cj, cs))"
      unfolding flm_inner_in_range[OF range] best
      by (simp add: keep1 best1_def[symmetric] best1 keep2 del: upd_best.simps)
    with inner js have new: "new = (\<lambda>j. if j \<in> set (js1 @ i # js2) then Some (?k j) else None)"
      and best': "best' = (ci, cj, cs)" by auto
    have seen': "\<And>i'. i' < Suc i \<Longrightarrow> ?run i' \<le> cs"
      using seen c(3,4) by (metis le_trans less_Suc_eq)
    have new1: "dict_get new j 0 \<le> ?run i" for j
      using k_le_i[of j] by (simp add: new dict_get_def)
    have new2: "dict_get new j 0 \<le> ?run j" for j
      using k_le_j[of j] by (simp add: new dict_get_def)
    have new3: "dict_get new i 0 = ?run i"
      by (simp add: new dict_get_def k_i)
    show ?thesis
      unfolding best' using c(1,2) seen' new1 new2 new3
      by (simp add: prev_run_Suc)
  qed
qed

lemma flm_outer_eq:
  "i \<le> length s \<Longrightarrow> eq_inv s i j2len best \<Longrightarrow>
   \<exists>d m. flm_outer s (chain_b s) (length s) 0 (length s) i j2len best = (d, d, m)
        \<and> d + m \<le> length s"
proof (induction s "chain_b s" "length s" "0::nat" "length s" i j2len best rule: flm_outer.induct)
  case (1 s i j2len best)
  show ?case
  proof (cases "i < length s")
    case False
    obtain bi bj bs where best: "best = (bi, bj, bs)" by (cases best)
    from False "1.prems" show ?thesis
      unfolding best by (subst flm_outer.simps) auto
  next
    case True
    obtain new best' where inner:
      "flm_inner i 0 (length s) j2len (dict_get (chain_b s) (s ! i) []) (Map.empty, best) = (new, best')"
      by (cases "flm_inner i 0 (length s) j2len (dict_get (chain_b s) (s ! i) []) (Map.empty, best)")
    have inv': "eq_inv s (Suc i) new best'"
      by (rule eq_inv_row[OF True "1.prems"(2) inner])
    have "Suc i \<le> length s" using True by simp
    from "1.hyps"[OF True inner[symmetric] this inv']
    show ?thesis
      using True inner by (subst flm_outer.simps) simp
  qed
qed

lemma extend_down_diag:
  "\<forall>c. P c \<Longrightarrow> extend_down P s s 0 0 (d, d, m) = (0, 0, m + d)"
proof (induction d arbitrary: m)
  case 0
  show ?case by (subst extend_down.simps) simp
next
  case (Suc d)
  have "extend_down P s s 0 0 (Suc d, Suc d, m) = extend_down P s s 0 0 (d, d, m + 1)"
    using Suc.prems by (subst extend_down.simps) simp
  also have "\<dots> = (0, 0, m + 1 + d)"
    by (rule Suc.IH[OF Suc.prems])
  finally show ?case by simp
qed

lemma extend_up_diag:
  "\<forall>c. P c \<Longrightarrow> m \<le> n \<Longrightarrow> extend_up P s s n n (0, 0, m) = (0, 0, n)"
proof (induction "n - m" arbitrary: m)
  case 0
  then show ?case by (subst extend_up.simps) simp
next
  case (Suc x)
  then have m: "m < n" "x = n - (m + 1)" "m + 1 \<le> n" by auto
  have "extend_up P s s n n (0, 0, m) = extend_up P s s n n (0, 0, m + 1)"
    using m(1) Suc.prems(1) by (subst extend_up.simps) simp
  also have "\<dots> = (0, 0, n)"
    by (rule Suc.hyps(1)[OF m(2) Suc.prems(1) m(3)])
  finally show ?case .
qed

lemma extend_down_none: "\<forall>c. \<not> P c \<Longrightarrow> extend_down P a b alo blo best = best"
  by (cases best) (simp add: extend_down.simps)

lemma extend_up_none: "\<forall>c. \<not> P c \<Longrightarrow> extend_up P a b ahi bhi best = best"
  by (cases best) (simp add: extend_up.simps)

lemma find_longest_match_eq:
  "find_longest_match s s (chain_b s) 0 (length s) 0 (length s) = (0, 0, length s)"
proof -
  have "eq_inv s 0 Map.empty (0, 0, 0)"
    by (simp add: dict_get_def prev_run_def)
  from flm_outer_eq[OF _ this]
  obtain d m where o: "flm_outer s (chain_b s) (length s) 0 (length s) 0 Map.empty (0, 0, 0) = (d, d, m)"
    and dm: "m + d \<le> length s" by (auto simp: add.commute)
  have nj: "\<forall>c. \<not> isbjunk c" "\<forall>c. (\<lambda>c. \<not> isbjunk c) c" by (simp_all add: isbjunk_def)
  show ?thesis
    unfolding find_longest_match_def Let_def o extend_down_diag[OF nj(2)]
      extend_up_diag[OF nj(2) dm] extend_down_none[OF nj(1)] extend_up_none[OF nj(1)] ..
qed

lemma get_matching_blocks_eq:
  "get_matching_blocks s s =
     (if s = [] then [(0, 0, 0)] else [(0, 0, length s), (length s, length s, 0)])"
proof -
  have stop: "gmb_loop a b b2j [] blocks = blocks" for a b b2j blocks
    by (subst gmb_loop.simps) simp
  have loop: "gmb_loop s s (chain_b s) [(0, length s, 0, length s)] [] =
                (if s = [] then [] else [(0, 0, length s)])"
    by (subst gmb_loop.simps) (simp add: find_longest_match_eq stop)
  show ?thesis
    unfolding get_matching_blocks_def Let_def loop by simp
qed

lemma get_opcodes_eq:
  "get_opcodes s s = (if s = [] then [] else [(''equal'', 0, length s, 0, length s)])"
  unfolding get_opcodes_def get_matching_blocks_eq by (simp add: Let_def)

lemma diff_strings_same: "diff_strings a a lc = a"
  unfolding diff_strings_def get_opcodes_eq by (simp add: slice_def)

subsection \<open>The dataset argument\<close>

lemma str_split_sep: "sep \<notin> set p \<Longrightarrow> str_split sep (p @ sep # r) = p # str_split sep r"
  by (induction p) (auto split: list.splits)

lemma str_split_plain: "sep \<notin> set p \<Longrightarrow> str_split sep p = [p]"
  by (induction p) (auto split: list.splits)

lemma first_sep:
  "sep \<in> set s \<Longrightarrow>
     s = takeWhile (\<lambda>c. c \<noteq> sep) s @ sep # tl (dropWhile (\<lambda>c. c \<noteq> sep) s)"
  by (induction s) auto

lemma str_split_hd: "\<exists>ps. str_split sep s = takeWhile (\<lambda>c. c \<noteq> sep) s # ps"
  by (induction s) (auto split: list.splits)

lemma dataset_path_name_comma:
  assumes "CHR '','' \<in> set ds"
  shows "dataset_path_name ds =
           Inr (takeWhile (\<lambda>c. c \<noteq> CHR '','') ds,
                Some (takeWhile (\<lambda>c. c \<noteq> CHR '','') (tl (dropWhile (\<lambda>c. c \<noteq> CHR '','') ds))))"
proof -
  let ?p = "takeWhile (\<lambda>c. c \<noteq> CHR '','') ds"
  let ?r = "tl (dropWhile (\<lambda>c. c \<noteq> CHR '','') ds)"
  have ds: "ds = ?p @ CHR '','' # ?r" by (rule first_sep[OF assms])
  have "CHR '','' \<notin> set ?p" by (auto dest: set_takeWhileD)
  then have "str_split CHR '','' (?p @ CHR '','' # ?r) = ?p # str_split CHR '','' ?r"
    by (rule str_split_sep)
  with ds have s: "str_split CHR '','' ds = ?p # str_split CHR '','' ?r" by simp
  obtain ps where "str_split CHR '','' ?r = takeWhile (\<lambda>c. c \<noteq> CHR '','') ?r # ps"
    using str_split_hd by blast
  with s assms show ?thesis
    by (simp add: dataset_path_name_def list_get_def)
qed

text \<open>
  C10, amended. When \<^verbatim>\<open>args.dataset\<close> contains a comma, \<^verbatim>\<open>load_prompts\<close> takes the part
  before the first comma as the dataset path and the part after it, up to the next comma
  if there is one, as the configuration name; what follows a second comma is discarded.
  When the first comma is the last character the name is the empty string, not \<open>None\<close>.
  (A string that merely ends in a comma need not give the empty name: see the
  counterexample.)
\<close>

theorem load_prompts_dataset_name:
  assumes "dataset a = Some ds" and "CHR '','' \<in> set ds"
  shows "\<exists>path name r. ds = path @ CHR '','' # r \<and> CHR '','' \<notin> set path
            \<and> name = takeWhile (\<lambda>c. c \<noteq> CHR '','') r
            \<and> dataset_path_name ds = Inr (path, Some name)
            \<and> (r = [] \<longrightarrow> name = [])
            \<and> (\<forall>n rest. r = n @ CHR '','' # rest \<and> CHR '','' \<notin> set n \<longrightarrow> name = n)
            \<and> hd (snd (snd (load_prompts E a w))) =
                 LoadDataset path (Some name) (case split a of None \<Rightarrow> ''validation'' | Some s \<Rightarrow> s)"
proof -
  let ?p = "takeWhile (\<lambda>c. c \<noteq> CHR '','') ds"
  let ?r = "tl (dropWhile (\<lambda>c. c \<noteq> CHR '','') ds)"
  let ?n = "takeWhile (\<lambda>c. c \<noteq> CHR '','') ?r"
  have ds: "ds = ?p @ CHR '','' # ?r" by (rule first_sep[OF assms(2)])
  have p: "CHR '','' \<notin> set ?p" by (auto dest: set_takeWhileD)
  have dpn: "dataset_path_name ds = Inr (?p, Some ?n)" by (rule dataset_path_name_comma[OF assms(2)])
  have two: "\<forall>n rest. ?r = n @ CHR '','' # rest \<and> CHR '','' \<notin> set n \<longrightarrow> ?n = n"
    by (auto simp: takeWhile_append1 takeWhile_tail)
  have ev: "hd (snd (snd (load_prompts E a w))) =
              LoadDataset ?p (Some ?n) (case split a of None \<Rightarrow> ''validation'' | Some s \<Rightarrow> s)"
    using assms(1) dpn
    by (auto simp: load_prompts_def io_bind_def io_lift_def call_def io_return_def Let_def
             split: prod.splits sum.splits option.splits)
  show ?thesis
    using ds p dpn two ev by (intro exI[of _ ?p] exI[of _ ?n] exI[of _ ?r]) auto
qed

theorem load_prompts_dataset_name_witness:
  "dataset (parse_args_defaults\<lparr>dataset := Some ''wikitext,''\<rparr>) = Some ''wikitext,''
   \<and> CHR '','' \<in> set ''wikitext,''
   \<and> dataset_path_name ''wikitext,'' = Inr (''wikitext'', Some [])
   \<and> (\<exists>path name r. ''wikitext,'' = path @ CHR '','' # r \<and> CHR '','' \<notin> set path
          \<and> name = takeWhile (\<lambda>c. c \<noteq> CHR '','') r
          \<and> dataset_path_name ''wikitext,'' = Inr (path, Some name))"
proof -
  have h1: "dataset (parse_args_defaults\<lparr>dataset := Some ''wikitext,''\<rparr>) = Some ''wikitext,''"
    by simp
  have h2: "CHR '','' \<in> set ''wikitext,''" by simp
  have v: "dataset_path_name ''wikitext,'' = Inr (''wikitext'', Some [])"
    by (simp add: dataset_path_name_def list_get_def)
  from load_prompts_dataset_name [OF h1 h2, of sim_env "[]"]
  have "\<exists>path name r. ''wikitext,'' = path @ CHR '','' # r \<and> CHR '','' \<notin> set path
          \<and> name = takeWhile (\<lambda>c. c \<noteq> CHR '','') r
          \<and> dataset_path_name ''wikitext,'' = Inr (path, Some name)"
    by blast
  with h1 h2 v show ?thesis by blast
qed

text \<open>The dataset string \<open>a,b,\<close> ends in a comma, and its name is \<open>b\<close>, not the empty string.\<close>

theorem dataset_trailing_comma_counterexample:
  "last ''a,b,'' = CHR '','' \<and> dataset_path_name ''a,b,'' = Inr (''a'', Some ''b'')
   \<and> dataset_path_name ''a,b,'' \<noteq> Inr (''a'', Some [])"
  by (simp add: dataset_path_name_def list_get_def)

subsection \<open>load_prompts\<close>

lemma load_prompts_None: "dataset a = None \<Longrightarrow> load_prompts E a w = (Inr None, w, [])"
  by (simp add: load_prompts_def io_return_def)

lemma load_prompts_Some:
  "dataset a = Some ds \<Longrightarrow>
   load_prompts E a w =
     (case dataset_path_name ds of
        Inl e \<Rightarrow> (Inl e, w, [])
      | Inr (path, name) \<Rightarrow>
          (case load_dataset E path name (case split a of None \<Rightarrow> ''validation'' | Some s \<Rightarrow> s) w of
             (Inl e, w1) \<Rightarrow>
               (Inl e, w1, [LoadDataset path name (case split a of None \<Rightarrow> ''validation'' | Some s \<Rightarrow> s)])
           | (Inr data, w1) \<Rightarrow>
               (case data (dataset_field a) of
                  None \<Rightarrow>
                    (Inl KeyError, w1,
                     [LoadDataset path name (case split a of None \<Rightarrow> ''validation'' | Some s \<Rightarrow> s)])
                | Some l \<Rightarrow>
                    (Inr (Some [(''questions'', l)]), w1,
                     [LoadDataset path name (case split a of None \<Rightarrow> ''validation'' | Some s \<Rightarrow> s)]))))"
  by (simp add: load_prompts_def io_bind_def io_lift_def call_def io_return_def Let_def column_def
           split: prod.splits sum.splits option.splits)

text \<open>
  C6. \<^verbatim>\<open>load_prompts\<close> returns \<open>None\<close> exactly when \<^verbatim>\<open>args.dataset\<close> is \<open>None\<close>, and then
  calls nothing. Otherwise it loads the split \<open>validation\<close>, or \<^verbatim>\<open>args.split\<close> when that
  is given, and, the load succeeding and the column \<^verbatim>\<open>args.dataset_field\<close> being there,
  returns the dictionary with the one key \<open>questions\<close> and the list of that column;
  and whatever dictionary it returns is of that form.
\<close>

theorem load_prompts_spec:
  "(fst (load_prompts E a w) = Inr None \<longleftrightarrow> dataset a = None)
   \<and> (dataset a = None \<longrightarrow> load_prompts E a w = (Inr None, w, []))
   \<and> (\<forall>ds path name data w1 l.
         dataset a = Some ds \<and> dataset_path_name ds = Inr (path, name)
         \<and> load_dataset E path name (case split a of None \<Rightarrow> ''validation'' | Some s \<Rightarrow> s) w = (Inr data, w1)
         \<and> data (dataset_field a) = Some l
         \<longrightarrow> load_prompts E a w =
               (Inr (Some [(''questions'', l)]), w1,
                [LoadDataset path name (case split a of None \<Rightarrow> ''validation'' | Some s \<Rightarrow> s)]))
   \<and> (\<forall>res w1 t. load_prompts E a w = (Inr (Some res), w1, t) \<longrightarrow>
         (\<exists>ds path name data l.
            dataset a = Some ds \<and> dataset_path_name ds = Inr (path, name)
            \<and> load_dataset E path name (case split a of None \<Rightarrow> ''validation'' | Some s \<Rightarrow> s) w = (Inr data, w1)
            \<and> data (dataset_field a) = Some l \<and> res = [(''questions'', l)]))"
proof (cases "dataset a")
  case None
  then show ?thesis by (simp add: load_prompts_None)
next
  case (Some ds)
  have 1: "fst (load_prompts E a w) \<noteq> Inr None"
    unfolding load_prompts_Some[OF Some]
    by (simp split: sum.splits prod.splits option.splits)
  have 3: "load_prompts E a w =
             (Inr (Some [(''questions'', l)]), w1,
              [LoadDataset path name (case split a of None \<Rightarrow> ''validation'' | Some s \<Rightarrow> s)])"
    if "dataset_path_name ds = Inr (path, name)"
       "load_dataset E path name (case split a of None \<Rightarrow> ''validation'' | Some s \<Rightarrow> s) w = (Inr data, w1)"
       "data (dataset_field a) = Some l" for path name data w1 l
    unfolding load_prompts_Some[OF Some] using that by simp
  have 4: "\<exists>path name data l.
            dataset_path_name ds = Inr (path, name)
            \<and> load_dataset E path name (case split a of None \<Rightarrow> ''validation'' | Some s \<Rightarrow> s) w = (Inr data, w1)
            \<and> data (dataset_field a) = Some l \<and> res = [(''questions'', l)]"
    if "load_prompts E a w = (Inr (Some res), w1, t)" for res w1 t
    using that unfolding load_prompts_Some[OF Some]
    by (auto split: sum.splits prod.splits option.splits)
  show ?thesis
    using Some 1 3 4 by (intro conjI allI impI) auto
qed

theorem load_prompts_spec_witness:
  "dataset (parse_args_defaults\<lparr>dataset := Some ''squad'', dataset_field := ''context''\<rparr>) = Some ''squad''
   \<and> dataset_path_name ''squad'' = Inr (''squad'', None)
   \<and> load_prompts sim_env (parse_args_defaults\<lparr>dataset := Some ''squad'', dataset_field := ''context''\<rparr>) []
        = (Inr (Some [(''questions'', [''c1''])]), [], [LoadDataset ''squad'' None ''validation''])"
proof -
  let ?a = "parse_args_defaults\<lparr>dataset := Some ''squad'', dataset_field := ''context''\<rparr>"
  let ?data = "[''questions'' \<mapsto> [''q1'', ''q2''], ''context'' \<mapsto> [''c1'']] :: string \<rightharpoonup> string list"
  have h1: "dataset ?a = Some ''squad''" by simp
  have h2: "dataset_path_name ''squad'' = Inr (''squad'', None)"
    by (simp add: dataset_path_name_def)
  have s: "(case split ?a of None \<Rightarrow> ''validation'' | Some s \<Rightarrow> s) = ''validation''"
    by (simp add: parse_args_defaults_def)
  have h3: "load_dataset sim_env ''squad'' None
              (case split ?a of None \<Rightarrow> ''validation'' | Some s \<Rightarrow> s) [] = (Inr ?data, [])"
    by (simp add: sim_env_def)
  have h4: "?data (dataset_field ?a) = Some [''c1'']" by simp
  from load_prompts_spec [of sim_env ?a "[]", THEN conjunct2, THEN conjunct2, THEN conjunct1,
         rule_format, OF conjI [OF h1 conjI [OF h2 conjI [OF h3 h4]]]]
  have "load_prompts sim_env ?a [] =
          (Inr (Some [(''questions'', [''c1''])]), [],
           [LoadDataset ''squad'' None (case split ?a of None \<Rightarrow> ''validation'' | Some s \<Rightarrow> s)])" .
  then show ?thesis unfolding s using h1 h2 by simp
qed

subsection \<open>load_model\<close>

lemma read_ov_options_cases:
  "read_ov_options E ov_conf w =
     (case ov_conf of
        None \<Rightarrow> (Inr None, w, [])
      | Some path \<Rightarrow>
          if path = [] then (Inr None, w, [])
          else (case json_load E path w of
                  (Inl e, w1) \<Rightarrow> (Inl e, w1, [JsonLoad path])
                | (Inr opts, w1) \<Rightarrow> (Inr (Some opts), w1, [JsonLoad path])))"
  by (simp add: read_ov_options_def io_bind_def io_return_def call_def
           split: option.splits prod.splits sum.splits)

lemma load_model_retry_cases:
  "load_model_retry E mid dev opts w =
     (case auto_config_from_pretrained E mid w of
        (Inl e, w1) \<Rightarrow> (Inl e, w1, [AutoConfigFromPretrained mid])
      | (Inr config, w1) \<Rightarrow>
          (case ov_from_pretrained E mid (Some config) True dev opts w1 of
             (r, w2) \<Rightarrow>
               (r, w2, [AutoConfigFromPretrained mid, OVFromPretrained mid (Some config) True dev opts])))"
  by (simp add: load_model_retry_def io_bind_def call_def split: prod.splits sum.splits)

lemma lower_char_table: "[lower_char c] = lowercased [c]"
proof (cases c)
  case (Char b0 b1 b2 b3 b4 b5 b6 b7)
  show ?thesis unfolding Char
    by (cases b0; cases b1; cases b2; cases b3; cases b4; cases b5; cases b6; cases b7)
       (simp_all add: lower_char_def lowercased_def capital_letters_def small_letters_def
          char_of_def bit_Suc_0_iff)
qed

lemma lower_lowercased: "lower s = lowercased s"
proof -
  have "map lower_char s = concat (map (\<lambda>c. [lower_char c]) s)"
    by (induction s) simp_all
  also have "\<dots> = concat (map (\<lambda>c. lowercased [c]) s)"
    by (simp only: lower_char_table)
  also have "\<dots> = lowercased s"
    by (induction s) (simp_all add: lowercased_def)
  finally show ?thesis by (simp add: lower_def)
qed

lemma load_model_hf:
  "load_model E mid dev ov_conf True g w =
     (case hf_from_pretrained E mid (lower dev) w of
        (r, w1) \<Rightarrow> (r, w1, [LogInfo (LStr ''Using HF model'') [], HFFromPretrained mid (lower dev)]))"
  by (simp add: load_model_def io_bind_def emit_def call_def split: prod.splits sum.splits)

lemma load_model_ov:
  assumes "read_ov_options E ov_conf w = (Inr opts, w0, t0)"
    and "ov_from_pretrained E mid None False dev opts w0 = (r1, w1)"
  shows "load_model E mid dev ov_conf False g w =
     (case r1 of
        Inr model \<Rightarrow> (Inr model, w1, t0 @ [OVFromPretrained mid None False dev opts])
      | Inl e \<Rightarrow>
          if is_ValueError e then
            (case load_model_retry E mid dev opts w1 of
               (r, w2, t2) \<Rightarrow> (r, w2, t0 @ OVFromPretrained mid None False dev opts # t2))
          else (Inl e, w1, t0 @ [OVFromPretrained mid None False dev opts]))"
  using assms
  by (simp add: load_model_def io_bind_def io_try_def call_def io_raise_def
           split: prod.splits sum.splits)

lemma load_model_retry_trace: "snd (snd (load_model_retry E mid dev opts w)) \<noteq> []"
  by (simp add: load_model_retry_cases split: prod.splits sum.splits)

text \<open>
  C7. With \<^verbatim>\<open>use_hf\<close>, \<^verbatim>\<open>load_model\<close> logs one line and returns what
  \<^verbatim>\<open>AutoModelForCausalLM.from_pretrained\<close> returns for the device in lower case, every
  capital letter of it replaced by its lower-case letter: the right-hand side does not
  mention \<^verbatim>\<open>ov_config\<close>, which is never opened. Without
  \<^verbatim>\<open>use_hf\<close>, once the options are read, the first call to
  \<^verbatim>\<open>OVModelForCausalLM.from_pretrained\<close> passes no configuration; more calls follow it
  exactly when it raised a \<^verbatim>\<open>ValueError\<close>, and they are those of the second attempt:
  \<^verbatim>\<open>AutoConfig.from_pretrained\<close>, then \<^verbatim>\<open>from_pretrained\<close> with that configuration and
  \<^verbatim>\<open>use_cache=True\<close>. With no second attempt the result is the first call's: the model,
  or the exception it raised.
\<close>

theorem load_model_spec:
  "load_model E mid dev ov_conf True g w =
     (case hf_from_pretrained E mid (lowercased dev) w of
        (r, w1) \<Rightarrow>
          (r, w1, [LogInfo (LStr ''Using HF model'') [], HFFromPretrained mid (lowercased dev)]))
   \<and> (\<forall>opts w0 t0 r1 w1.
         read_ov_options E ov_conf w = (Inr opts, w0, t0)
         \<and> ov_from_pretrained E mid None False dev opts w0 = (r1, w1) \<longrightarrow>
         (\<exists>rest. snd (snd (load_model E mid dev ov_conf False g w))
                   = t0 @ OVFromPretrained mid None False dev opts # rest
                 \<and> (rest \<noteq> [] \<longleftrightarrow> (\<exists>e. r1 = Inl e \<and> is_ValueError e))
                 \<and> (rest \<noteq> [] \<longrightarrow>
                      rest = snd (snd (load_model_retry E mid dev opts w1))
                      \<and> fst (load_model E mid dev ov_conf False g w)
                          = fst (load_model_retry E mid dev opts w1))
                 \<and> (rest = [] \<longrightarrow> load_model E mid dev ov_conf False g w
                        = (r1, w1, t0 @ [OVFromPretrained mid None False dev opts])))
         \<and> (\<forall>config w2. auto_config_from_pretrained E mid w1 = (Inr config, w2) \<longrightarrow>
               load_model_retry E mid dev opts w1 =
                 (fst (ov_from_pretrained E mid (Some config) True dev opts w2),
                  snd (ov_from_pretrained E mid (Some config) True dev opts w2),
                  [AutoConfigFromPretrained mid, OVFromPretrained mid (Some config) True dev opts])))"
proof (intro conjI allI impI)
  show "load_model E mid dev ov_conf True g w =
     (case hf_from_pretrained E mid (lowercased dev) w of
        (r, w1) \<Rightarrow>
          (r, w1, [LogInfo (LStr ''Using HF model'') [], HFFromPretrained mid (lowercased dev)]))"
    unfolding lower_lowercased [symmetric] by (rule load_model_hf)
next
  fix opts w0 t0 r1 w1
  assume "read_ov_options E ov_conf w = (Inr opts, w0, t0)
         \<and> ov_from_pretrained E mid None False dev opts w0 = (r1, w1)"
  then have a: "read_ov_options E ov_conf w = (Inr opts, w0, t0)"
    and b: "ov_from_pretrained E mid None False dev opts w0 = (r1, w1)" by auto
  note lm = load_model_ov[OF a b, of g]
  show "\<exists>rest. snd (snd (load_model E mid dev ov_conf False g w))
                   = t0 @ OVFromPretrained mid None False dev opts # rest
                 \<and> (rest \<noteq> [] \<longleftrightarrow> (\<exists>e. r1 = Inl e \<and> is_ValueError e))
                 \<and> (rest \<noteq> [] \<longrightarrow>
                      rest = snd (snd (load_model_retry E mid dev opts w1))
                      \<and> fst (load_model E mid dev ov_conf False g w)
                          = fst (load_model_retry E mid dev opts w1))
                 \<and> (rest = [] \<longrightarrow> load_model E mid dev ov_conf False g w
                        = (r1, w1, t0 @ [OVFromPretrained mid None False dev opts]))"
  proof (cases r1)
    case (Inr model)
    with lm show ?thesis by (intro exI[of _ "[]"]) simp
  next
    case (Inl e)
    show ?thesis
    proof (cases "is_ValueError e")
      case False
      with Inl lm show ?thesis by (intro exI[of _ "[]"]) simp
    next
      case True
      with Inl lm load_model_retry_trace[of E mid dev opts w1] show ?thesis
        by (intro exI[of _ "snd (snd (load_model_retry E mid dev opts w1))"])
           (simp split: prod.splits)
    qed
  qed
next
  fix opts w0 t0 r1 w1 config w2
  assume "auto_config_from_pretrained E mid w1 = (Inr config, w2)"
  then show "load_model_retry E mid dev opts w1 =
                 (fst (ov_from_pretrained E mid (Some config) True dev opts w2),
                  snd (ov_from_pretrained E mid (Some config) True dev opts w2),
                  [AutoConfigFromPretrained mid, OVFromPretrained mid (Some config) True dev opts])"
    by (simp add: load_model_retry_cases split: prod.splits)
qed

theorem load_model_spec_witness:
  "load_model sim_env (Some ''gpt2'') (''Gpu.0-'' @ [CHR 0xDC, CHR 0xD7, CHR 0xDF]) (Some ''conf.json'')
       True False []
     = (Inr ''hf:gpt2'', [],
        [LogInfo (LStr ''Using HF model'') [],
         HFFromPretrained (Some ''gpt2'') (''gpu.0-'' @ [CHR 0xFC, CHR 0xD7, CHR 0xDF])])
   \<and> read_ov_options sim_env None [] = (Inr None, [], [])
   \<and> ov_from_pretrained sim_env (Some ''legacy'') None False ''CPU'' None []
        = (Inl (ValueError ''unknown model type''), [])
   \<and> (\<exists>rest. snd (snd (load_model sim_env (Some ''legacy'') ''CPU'' None False False []))
                = OVFromPretrained (Some ''legacy'') None False ''CPU'' None # rest
              \<and> rest \<noteq> []
              \<and> rest = snd (snd (load_model_retry sim_env (Some ''legacy'') ''CPU'' None [])))
   \<and> load_model_retry sim_env (Some ''legacy'') ''CPU'' None []
        = (Inr ''ov:legacy'', [],
           [AutoConfigFromPretrained (Some ''legacy''),
            OVFromPretrained (Some ''legacy'') (Some ''config:legacy'') True ''CPU'' None])"
proof -
  have low: "lowercased (''Gpu.0-'' @ [CHR 0xDC, CHR 0xD7, CHR 0xDF])
               = ''gpu.0-'' @ [CHR 0xFC, CHR 0xD7, CHR 0xDF]"
    by (simp add: lowercased_def capital_letters_def small_letters_def)
  from load_model_spec [of sim_env "Some ''gpt2''" "''Gpu.0-'' @ [CHR 0xDC, CHR 0xD7, CHR 0xDF]"
         "Some ''conf.json''" False "[]", THEN conjunct1]
  have hf: "load_model sim_env (Some ''gpt2'') (''Gpu.0-'' @ [CHR 0xDC, CHR 0xD7, CHR 0xDF])
              (Some ''conf.json'') True False []
            = (Inr ''hf:gpt2'', [],
               [LogInfo (LStr ''Using HF model'') [],
                HFFromPretrained (Some ''gpt2'') (''gpu.0-'' @ [CHR 0xFC, CHR 0xD7, CHR 0xDF])])"
    unfolding low by (simp add: sim_env_def)
  have h1: "read_ov_options sim_env None [] = (Inr None, [], [])"
    by (simp add: read_ov_options_def io_return_def)
  have h2: "ov_from_pretrained sim_env (Some ''legacy'') None False ''CPU'' None []
              = (Inl (ValueError ''unknown model type''), [])"
    by (simp add: sim_env_def)
  have h3: "auto_config_from_pretrained sim_env (Some ''legacy'') [] = (Inr ''config:legacy'', [])"
    by (simp add: sim_env_def)
  note spec = load_model_spec [of sim_env "Some ''legacy''" "''CPU''" None False "[]",
                THEN conjunct2, rule_format, OF conjI [OF h1 h2]]
  from spec [THEN conjunct1]
  obtain rest where
    t: "snd (snd (load_model sim_env (Some ''legacy'') ''CPU'' None False False []))
          = [] @ OVFromPretrained (Some ''legacy'') None False ''CPU'' None # rest"
    and r: "rest \<noteq> [] \<longleftrightarrow> (\<exists>e. Inl (ValueError ''unknown model type'') = (Inl e :: error + string) \<and> is_ValueError e)"
    and same: "rest \<noteq> [] \<longrightarrow> rest = snd (snd (load_model_retry sim_env (Some ''legacy'') ''CPU'' None []))
                 \<and> fst (load_model sim_env (Some ''legacy'') ''CPU'' None False False [])
                     = fst (load_model_retry sim_env (Some ''legacy'') ''CPU'' None [])"
    by blast
  from r have ne: "rest \<noteq> []" by simp
  from spec [THEN conjunct2, rule_format, OF h3]
  have retry: "load_model_retry sim_env (Some ''legacy'') ''CPU'' None []
        = (Inr ''ov:legacy'', [],
           [AutoConfigFromPretrained (Some ''legacy''),
            OVFromPretrained (Some ''legacy'') (Some ''config:legacy'') True ''CPU'' None])"
    by (simp add: sim_env_def)
  from t ne same have ex: "\<exists>rest. snd (snd (load_model sim_env (Some ''legacy'') ''CPU'' None False False []))
                = OVFromPretrained (Some ''legacy'') None False ''CPU'' None # rest
              \<and> rest \<noteq> []
              \<and> rest = snd (snd (load_model_retry sim_env (Some ''legacy'') ''CPU'' None []))"
    by simp
  show ?thesis
    by (rule conjI [OF hf conjI [OF h1 conjI [OF h2 conjI [OF ex retry]]]])
qed

subsection \<open>diff_strings\<close>

lemma slice_substring: "slice s lo hi = substring s lo hi"
proof (rule nth_equalityI)
  show "length (slice s lo hi) = length (substring s lo hi)"
    by (simp add: slice_def substring_def)
next
  fix i assume "i < length (slice s lo hi)"
  then have "i < min (length s) hi - lo" by (simp add: slice_def)
  then have i: "lo + i < hi" "lo + i < length s" by arith+
  then have "substring s lo hi ! i = s ! (lo + i)"
    by (simp add: substring_def)
  moreover from i have "slice s lo hi ! i = s ! (lo + i)"
    by (simp add: slice_def)
  ultimately show "slice s lo hi ! i = substring s lo hi ! i" by simp
qed

lemma wrap_green: "green lc @ s @ endgreen lc = in_green lc s"
  by (simp add: green_def endgreen_def in_green_def)

lemma wrap_red: "red lc @ s @ endred lc = in_red lc s"
  by (simp add: red_def endred_def in_red_def)

lemma diff_loop_pieces:
  "concat (diff_loop a b lc ops out) = concat out @ concat (map (opcode_piece a b lc) ops)"
proof (induction ops arbitrary: out)
  case Nil
  show ?case by simp
next
  case (Cons op ops)
  obtain tag a0 a1 b0 b1 where op: "op = (tag, a0, a1, b0, b1)" by (cases op)
  show ?case unfolding op
    by (simp add: Cons.IH slice_substring wrap_green wrap_red del: append_assoc)
qed

lemma opcodes_loop_tags:
  "list_all known_tag answer \<Longrightarrow> list_all known_tag (opcodes_loop blocks i j answer)"
  by (induction blocks i j answer rule: opcodes_loop.induct) (auto simp: known_tag_def Let_def)

text \<open>
  C2. \<^verbatim>\<open>diff_strings(a, b)\<close> is the concatenation, in the order of
  \<^verbatim>\<open>SequenceMatcher(None, a, b).get_opcodes()\<close>, of the pieces of the opcodes:
  \<^verbatim>\<open>a[a0:a1]\<close> for \<open>equal\<close>, \<^verbatim>\<open>b[b0:b1]\<close> in the green markers for \<open>insert\<close>,
  \<^verbatim>\<open>a[a0:a1]\<close> in the red markers for \<open>delete\<close>, the two of them for \<open>replace\<close>; every
  opcode carries one of the four tags; and \<^verbatim>\<open>diff_strings(a, a)\<close> is \<open>a\<close> for every
  string, with either set of markers.
\<close>

theorem diff_strings_spec:
  "diff_strings a b lc = concat (map (opcode_piece a b lc) (get_opcodes a b))
   \<and> list_all known_tag (get_opcodes a b)
   \<and> diff_strings a a lc = a"
proof (intro conjI)
  show "diff_strings a b lc = concat (map (opcode_piece a b lc) (get_opcodes a b))"
    by (simp add: diff_strings_def diff_loop_pieces)
  show "list_all known_tag (get_opcodes a b)"
    unfolding get_opcodes_def by (rule opcodes_loop_tags) simp
  show "diff_strings a a lc = a"
    by (rule diff_strings_same)
qed

text \<open>The example of the \<^verbatim>\<open>difflib\<close> documentation for \<^verbatim>\<open>get_opcodes\<close>.\<close>

lemma get_opcodes_example:
  "get_opcodes ''qabxcd'' ''abycdf'' =
     [(''delete'', 0, 1, 0, 0), (''equal'', 1, 3, 0, 2), (''replace'', 3, 4, 2, 3),
      (''equal'', 4, 6, 3, 5), (''insert'', 6, 6, 5, 6)]"
  by code_simp

lemma opcode_pieces_example:
  "concat (map (opcode_piece ''qabxcd'' ''abycdf'' True)
     [(''delete'', 0, 1, 0, 0), (''equal'', 1, 3, 0, 2), (''replace'', 3, 4, 2, 3),
      (''equal'', 4, 6, 3, 5), (''insert'', 6, 6, 5, 6)])
   = ''<RED><black>q</black></RED>ab<GREEN><black>y</black></GREEN><RED><black>x</black></RED>cd<GREEN><black>f</black></GREEN>''"
  by code_simp

lemma opcode_pieces_example_ansi:
  "concat (map (opcode_piece ''qabxcd'' ''abycdf'' False)
     [(''delete'', 0, 1, 0, 0), (''equal'', 1, 3, 0, 2), (''replace'', 3, 4, 2, 3),
      (''equal'', 4, 6, 3, 5), (''insert'', 6, 6, 5, 6)])
   = [CHR 0x1B] @ ''[38;5;16;48;5;1mq'' @ [CHR 0x1B] @ ''[0mab''
     @ [CHR 0x1B] @ ''[38;5;16;48;5;2my'' @ [CHR 0x1B] @ ''[0m''
     @ [CHR 0x1B] @ ''[38;5;16;48;5;1mx'' @ [CHR 0x1B] @ ''[0mcd''
     @ [CHR 0x1B] @ ''[38;5;16;48;5;2mf'' @ [CHR 0x1B] @ ''[0m''"
  by code_simp

theorem diff_strings_spec_witness:
  "diff_strings ''qabxcd'' ''abycdf'' True
     = ''<RED><black>q</black></RED>ab<GREEN><black>y</black></GREEN><RED><black>x</black></RED>cd<GREEN><black>f</black></GREEN>''
   \<and> diff_strings ''qabxcd'' ''abycdf'' False
     = [CHR 0x1B] @ ''[38;5;16;48;5;1mq'' @ [CHR 0x1B] @ ''[0mab''
       @ [CHR 0x1B] @ ''[38;5;16;48;5;2my'' @ [CHR 0x1B] @ ''[0m''
       @ [CHR 0x1B] @ ''[38;5;16;48;5;1mx'' @ [CHR 0x1B] @ ''[0mcd''
       @ [CHR 0x1B] @ ''[38;5;16;48;5;2mf'' @ [CHR 0x1B] @ ''[0m''
   \<and> diff_strings ''qabxcd'' ''qabxcd'' False = ''qabxcd''"
proof -
  from diff_strings_spec [of "''qabxcd''" "''abycdf''" True]
  have 1: "diff_strings ''qabxcd'' ''abycdf'' True =
             concat (map (opcode_piece ''qabxcd'' ''abycdf'' True) (get_opcodes ''qabxcd'' ''abycdf''))"
    by (rule conjunct1)
  from diff_strings_spec [of "''qabxcd''" "''abycdf''" False]
  have 2: "diff_strings ''qabxcd'' ''abycdf'' False =
             concat (map (opcode_piece ''qabxcd'' ''abycdf'' False) (get_opcodes ''qabxcd'' ''abycdf''))"
    by (rule conjunct1)
  from diff_strings_spec [of "''qabxcd''" "''qabxcd''" False]
  have 3: "diff_strings ''qabxcd'' ''qabxcd'' False = ''qabxcd''"
    by (elim conjE)
  from 1 2 3 show ?thesis
    unfolding get_opcodes_example opcode_pieces_example opcode_pieces_example_ansi
    by (intro conjI)
qed

subsection \<open>The stages of main\<close>

lemma call_Inr:
  "call ev f w = (Inr x, w', t) \<longleftrightarrow> f w = (Inr x, w') \<and> t = [ev]"
  by (auto simp: call_def split: prod.splits)

lemma emit_eq: "emit ev w = (r, w', t) \<longleftrightarrow> r = Inr () \<and> w' = w \<and> t = [ev]"
  by (auto simp: emit_def)

lemma io_return_eq: "io_return x w = (r, w', t) \<longleftrightarrow> r = Inr x \<and> w' = w \<and> t = []"
  by (auto simp: io_return_def)

lemma exists_path_eq:
  "exists_path E p w = (r, w', t) \<longleftrightarrow>
     r = Inr (fst (path_exists E p w)) \<and> w' = snd (path_exists E p w)
     \<and> t = [PathExists p (fst (path_exists E p w))]"
  by (auto simp: exists_path_def split: prod.splits)

lemma read_ov_options_events: "list_all is_loading (snd (snd (read_ov_options E c w)))"
  by (simp add: read_ov_options_cases split: option.splits prod.splits sum.splits)

lemma load_model_retry_events: "list_all is_loading (snd (snd (load_model_retry E mid dev opts w)))"
  by (simp add: load_model_retry_cases split: prod.splits sum.splits)

lemma load_model_events: "list_all is_loading (snd (snd (load_model E mid dev c h g w)))"
proof (cases h)
  case True
  then show ?thesis by (simp add: load_model_hf split: prod.splits)
next
  case False
  obtain r0 w0 t0 where ro: "read_ov_options E c w = (r0, w0, t0)"
    by (cases "read_ov_options E c w")
  have t0: "list_all is_loading t0"
    using read_ov_options_events[of E c w] ro by simp
  show ?thesis
  proof (cases r0)
    case (Inl e)
    with ro False t0 show ?thesis
      by (simp add: load_model_def io_bind_def)
  next
    case (Inr opts)
    obtain r1 w1 where ov: "ov_from_pretrained E mid None False dev opts w0 = (r1, w1)"
      by (cases "ov_from_pretrained E mid None False dev opts w0")
    from load_model_ov[OF ro[unfolded Inr] ov, of g] False t0
         load_model_retry_events[of E mid dev opts w1]
    show ?thesis
      by (auto split: sum.splits prod.splits)
  qed
qed

lemma main_output_Inr:
  assumes "main_output E a pq am w = (Inr (), w', t)"
  shows "if truthy (output_dir a) then
           \<exists>out r df1 df2. output_dir a = Some out
             \<and> r = fst (path_exists E out w)
             \<and> t = PathExists out r # (if r then [] else [Mkdir out])
                   @ [DataFrame pq, ToCsv df1 (path_join out ''metrics_per_qustion.csv''),
                      DataFrame am, ToCsv df2 (path_join out ''metrics.csv'')]
         else t = [] \<and> w' = w"
proof (cases "output_dir a")
  case None
  with assms show ?thesis by (simp add: main_output_def io_return_eq)
next
  case (Some out)
  show ?thesis
  proof (cases "out = []")
    case True
    with Some assms show ?thesis by (simp add: main_output_def io_return_eq)
  next
    case False
    with Some assms show ?thesis
      by (cases "fst (path_exists E out w)")
         (auto simp: main_output_def io_bind_Inr call_Inr exists_path_eq io_return_eq)
  qed
qed

lemma path_join_file_in:
  "out \<noteq> [] \<Longrightarrow> path_join out ''metrics_per_qustion.csv'' = file_in out ''metrics_per_qustion.csv''"
  "out \<noteq> [] \<Longrightarrow> path_join out ''metrics.csv'' = file_in out ''metrics.csv''"
  by (simp_all add: path_join_def file_in_def)

lemma main_output_frames:
  assumes "main_output E a pq am w = (Inr (), w', t)" and "truthy (output_dir a)"
  shows "\<exists>out r df1 df2 v1 v2 v3 v4 v5.
           output_dir a = Some out
           \<and> path_exists E out w = (r, v1)
           \<and> (if r then v2 = v1 else mkdir E out v1 = (Inr (), v2))
           \<and> data_frame E pq v2 = (Inr df1, v3)
           \<and> to_csv E df1 (file_in out ''metrics_per_qustion.csv'') v3 = (Inr (), v4)
           \<and> data_frame E am v4 = (Inr df2, v5)
           \<and> to_csv E df2 (file_in out ''metrics.csv'') v5 = (Inr (), w')
           \<and> t = PathExists out r # (if r then [] else [Mkdir out])
                 @ [DataFrame pq, ToCsv df1 (file_in out ''metrics_per_qustion.csv''),
                    DataFrame am, ToCsv df2 (file_in out ''metrics.csv'')]"
proof -
  from assms(2) obtain out where o: "output_dir a = Some out" and ne: "out \<noteq> []"
    by (cases "output_dir a") auto
  obtain r v1 where pe: "path_exists E out w = (r, v1)" by (cases "path_exists E out w")
  let ?p1 = "file_in out ''metrics_per_qustion.csv''" and ?p2 = "file_in out ''metrics.csv''"
  from assms(1) o ne pe obtain v2 t2 df1 v3 v4 df2 v5 where
    mk: "(if \<not> r then call (Mkdir out) (mkdir E out) else io_return ()) v1 = (Inr (), v2, t2)"
    and d1: "data_frame E pq v2 = (Inr df1, v3)"
    and c1: "to_csv E df1 ?p1 v3 = (Inr (), v4)"
    and d2: "data_frame E am v4 = (Inr df2, v5)"
    and c2: "to_csv E df2 ?p2 v5 = (Inr (), w')"
    and t: "t = PathExists out r # t2 @ [DataFrame pq, ToCsv df1 ?p1, DataFrame am, ToCsv df2 ?p2]"
    by (auto simp: main_output_def io_bind_Inr call_Inr exists_path_eq path_join_file_in)
  from mk have m: "if r then v2 = v1 else mkdir E out v1 = (Inr (), v2)"
    and t2: "t2 = (if r then [] else [Mkdir out])"
    by (auto simp: call_Inr io_return_eq split: if_splits)
  show ?thesis
    apply (rule exI[of _ out], rule exI[of _ r], rule exI[of _ df1], rule exI[of _ df2],
           rule exI[of _ v1], rule exI[of _ v2], rule exI[of _ v3], rule exI[of _ v4],
           rule exI[of _ v5])
    using o pe m d1 c1 d2 c2 t t2 by simp
qed

lemma main_target_Inr:
  assumes "main_target E a ev w = (Inr (), w', t)"
  shows "if truthy (target_model a) then
           \<exists>tm m pq am w1 w2 lt ot. target_model a = Some tm
             \<and> load_model E (target_model a) (device a) (ov_config a) (hf a) False w = (Inr m, w1, lt)
             \<and> score E ev m w1 = (Inr (pq, am), w2)
             \<and> main_output E a pq am w2 = (Inr (), w', ot)
             \<and> t = lt @ [Score ev m, LogInfo (LStr ''Metrics for model: %s'') [LStr tm],
                          LogInfo (LObj am) []] @ ot
         else t = [] \<and> w' = w"
proof (cases "target_model a")
  case None
  with assms show ?thesis by (simp add: main_target_def io_return_eq)
next
  case (Some tm)
  show ?thesis
  proof (cases "tm = []")
    case True
    with Some assms show ?thesis by (simp add: main_target_def io_return_eq)
  next
    case False
    with Some assms show ?thesis
      by (auto simp: main_target_def io_bind_Inr call_Inr emit_eq split: prod.splits)
  qed
qed

lemma main_verbose_Inr:
  assumes "main_verbose E a ev w = (Inr (), w', t)"
  shows "if verbose a then
           \<exists>exs. worst_examples E ev 5 ''similarity'' w = (Inr exs, w')
             \<and> t = WorstExamples ev 5 ''similarity'' # log_examples 0 exs
         else t = [] \<and> w' = w"
  using assms
  by (auto simp: main_verbose_def io_bind_Inr call_Inr io_return_eq Let_def)

lemma main_evaluator_Inr:
  assumes "main_evaluator E a p tok w = (Inr ev, w', t)"
  shows "(\<exists>g w1. gt_data a = Some g \<and> g \<noteq> [] \<and> path_exists E g w = (True, w1)
            \<and> evaluator_init E None (Some g) p tok (text_encoder a) (num_samples a) (language a) w1
                 = (Inr ev, w')
            \<and> t = [PathExists g True,
                    EvaluatorInit None (Some g) p tok (text_encoder a) (num_samples a) (language a)])
       \<or> (\<exists>g m w1 w2 w3 lt. gt_data a = Some g \<and> g \<noteq> [] \<and> path_exists E g w = (False, w1)
            \<and> load_model E (base_model a) (device a) (ov_config a) (hf a) False w1 = (Inr m, w2, lt)
            \<and> evaluator_init E (Some m) None p tok (text_encoder a) (num_samples a) (language a) w2
                 = (Inr ev, w3)
            \<and> dump_gt E ev g w3 = (Inr (), w')
            \<and> t = [PathExists g False] @ lt
                   @ [EvaluatorInit (Some m) None p tok (text_encoder a) (num_samples a) (language a),
                      DumpGt ev g, Del ''base_model''])
       \<or> (\<exists>m w2 lt. \<not> truthy (gt_data a)
            \<and> load_model E (base_model a) (device a) (ov_config a) (hf a) False w = (Inr m, w2, lt)
            \<and> evaluator_init E (Some m) None p tok (text_encoder a) (num_samples a) (language a) w2
                 = (Inr ev, w')
            \<and> t = lt
                   @ [EvaluatorInit (Some m) None p tok (text_encoder a) (num_samples a) (language a),
                      Del ''base_model''])"
proof (cases "gt_data a")
  case None
  with assms show ?thesis
    by (auto simp: main_evaluator_def io_bind_Inr call_Inr emit_eq io_return_eq)
next
  case (Some g)
  show ?thesis
  proof (cases "g = []")
    case True
    with Some assms show ?thesis
      by (auto simp: main_evaluator_def io_bind_Inr call_Inr emit_eq io_return_eq)
  next
    case False
    obtain r w1 where pe: "path_exists E g w = (r, w1)" by (cases "path_exists E g w")
    show ?thesis
    proof (cases r)
      case True
      with Some False pe assms show ?thesis
        by (auto simp: main_evaluator_def io_bind_Inr call_Inr exists_path_eq)
    next
      case nex: False
      with Some False pe assms have
        "\<exists>m w2 w3 lt.
            load_model E (base_model a) (device a) (ov_config a) (hf a) False w1 = (Inr m, w2, lt)
            \<and> evaluator_init E (Some m) None p tok (text_encoder a) (num_samples a) (language a) w2
                 = (Inr ev, w3)
            \<and> dump_gt E ev g w3 = (Inr (), w')
            \<and> t = [PathExists g False] @ lt
                   @ [EvaluatorInit (Some m) None p tok (text_encoder a) (num_samples a) (language a),
                      DumpGt ev g, Del ''base_model'']"
        by (auto simp: main_evaluator_def io_bind_Inr call_Inr exists_path_eq emit_eq io_return_eq)
      then obtain m w2 w3 lt where
        "load_model E (base_model a) (device a) (ov_config a) (hf a) False w1 = (Inr m, w2, lt)"
        "evaluator_init E (Some m) None p tok (text_encoder a) (num_samples a) (language a) w2
                 = (Inr ev, w3)"
        "dump_gt E ev g w3 = (Inr (), w')"
        "t = [PathExists g False] @ lt
                   @ [EvaluatorInit (Some m) None p tok (text_encoder a) (num_samples a) (language a),
                      DumpGt ev g, Del ''base_model'']"
        by blast
      with Some False pe nex show ?thesis
        by (intro disjI2 disjI1 exI[of _ g] exI[of _ m] exI[of _ w1] exI[of _ w2] exI[of _ w3]
              exI[of _ lt]) simp
    qed
  qed
qed

lemma main_stages:
  assumes "main E a w = (Inr (), w', t)"
  shows "\<exists>p tok ev w1 w2 w3 w4 t1 t2 t3 t4 t5.
           check_args a = Inr a
           \<and> load_prompts E a w = (Inr p, w1, t1)
           \<and> load_tokenizer E a w1 = (Inr tok, w2, t2)
           \<and> main_evaluator E a p tok w2 = (Inr ev, w3, t3)
           \<and> main_target E a ev w3 = (Inr (), w4, t4)
           \<and> main_verbose E a ev w4 = (Inr (), w', t5)
           \<and> t = t1 @ t2 @ t3 @ t4 @ t5"
proof -
  from assms obtain a' where c: "check_args a = Inr a'"
    by (auto simp: main_def io_bind_def io_lift_def split: sum.splits prod.splits)
  then have a': "a' = a" by (auto simp: check_args_def split: if_splits)
  from assms c a' show ?thesis
    by (simp add: main_def io_bind_Inr io_lift_def) blast
qed

subsection \<open>The ground truth\<close>

lemma load_prompts_events: "list_all is_setup (snd (snd (load_prompts E a w)))"
proof (cases "dataset a")
  case None
  then show ?thesis by (simp add: load_prompts_None)
next
  case (Some ds)
  show ?thesis
    unfolding load_prompts_Some[OF Some]
    by (simp split: sum.splits prod.splits option.splits)
qed

lemma load_tokenizer_events: "list_all is_setup (snd (snd (load_tokenizer E a w)))"
  by (simp add: load_tokenizer_def call_def split: prod.splits)

text \<open>
  C3, amended. On every run of \<^verbatim>\<open>main\<close> that completes, the calls made before the
  evaluator stage are those of \<^verbatim>\<open>load_prompts\<close> and \<^verbatim>\<open>load_tokenizer\<close>, and the stage is
  one of three. If \<^verbatim>\<open>--gt-data\<close> is a non-empty path and the file exists, the Evaluator is
  constructed with \<^verbatim>\<open>base_model=None\<close> and no model is loaded before it: \<^verbatim>\<open>load_model\<close> is
  not called on the base model. If \<^verbatim>\<open>--gt-data\<close> is a non-empty path and the file does not
  exist, the base model is loaded, the Evaluator is constructed with it,
  \<^verbatim>\<open>evaluator.dump_gt\<close> is called with that path, and then the base model is deleted. If
  \<^verbatim>\<open>--gt-data\<close> is absent or empty, the base model is loaded, the Evaluator is constructed
  with it and the base model is deleted, with no dump. What follows is the target stage
  and the verbose stage.
\<close>

theorem main_ground_truth:
  assumes "main E a w = (Inr (), w', t)"
  shows "\<exists>t0 ts p tok ev w3 w4 t4 t5.
           list_all is_setup t0
           \<and> main_target E a ev w3 = (Inr (), w4, t4)
           \<and> main_verbose E a ev w4 = (Inr (), w', t5)
           \<and> ts = t4 @ t5
           \<and> ((\<exists>g. gt_data a = Some g \<and> g \<noteq> []
                  \<and> t = t0 @ [PathExists g True,
                              EvaluatorInit None (Some g) p tok (text_encoder a) (num_samples a)
                                (language a)] @ ts)
              \<or> (\<exists>g m lt w1 w2. gt_data a = Some g \<and> g \<noteq> []
                  \<and> load_model E (base_model a) (device a) (ov_config a) (hf a) False w1
                       = (Inr m, w2, lt)
                  \<and> t = t0 @ [PathExists g False] @ lt
                         @ [EvaluatorInit (Some m) None p tok (text_encoder a) (num_samples a)
                              (language a),
                            DumpGt ev g, Del ''base_model''] @ ts)
              \<or> (\<exists>m lt w1 w2. \<not> truthy (gt_data a)
                  \<and> load_model E (base_model a) (device a) (ov_config a) (hf a) False w1
                       = (Inr m, w2, lt)
                  \<and> t = t0 @ lt
                         @ [EvaluatorInit (Some m) None p tok (text_encoder a) (num_samples a)
                              (language a),
                            Del ''base_model''] @ ts))"
proof -
  from main_stages[OF assms] obtain p tok ev w1 w2 w3 w4 t1 t2 t3 t4 t5 where
    lp: "load_prompts E a w = (Inr p, w1, t1)"
    and lt: "load_tokenizer E a w1 = (Inr tok, w2, t2)"
    and me: "main_evaluator E a p tok w2 = (Inr ev, w3, t3)"
    and mt: "main_target E a ev w3 = (Inr (), w4, t4)"
    and mv: "main_verbose E a ev w4 = (Inr (), w', t5)"
    and t: "t = t1 @ t2 @ t3 @ t4 @ t5"
    by blast
  have pre: "list_all is_setup (t1 @ t2)"
    using load_prompts_events[of E a w] load_tokenizer_events[of E a w1] lp lt by simp
  from main_evaluator_Inr[OF me] show ?thesis
  proof (elim disjE exE conjE, goal_cases)
    case (1 g v1)
    show ?case
      apply (rule exI[of _ "t1 @ t2"], rule exI[of _ "t4 @ t5"], rule exI[of _ p],
             rule exI[of _ tok], rule exI[of _ ev], rule exI[of _ w3], rule exI[of _ w4],
             rule exI[of _ t4], rule exI[of _ t5])
      apply (intro conjI pre mt mv refl)
      apply (rule disjI1, rule exI[of _ g])
      using t 1 by simp
  next
    case (2 g m v1 v2 v3 lt)
    show ?case
      apply (rule exI[of _ "t1 @ t2"], rule exI[of _ "t4 @ t5"], rule exI[of _ p],
             rule exI[of _ tok], rule exI[of _ ev], rule exI[of _ w3], rule exI[of _ w4],
             rule exI[of _ t4], rule exI[of _ t5])
      apply (intro conjI pre mt mv refl)
      apply (rule disjI2, rule disjI1)
      apply (rule exI[of _ g], rule exI[of _ m], rule exI[of _ lt], rule exI[of _ v1],
             rule exI[of _ v2])
      using t 2 by simp
  next
    case (3 m v2 lt)
    show ?case
      apply (rule exI[of _ "t1 @ t2"], rule exI[of _ "t4 @ t5"], rule exI[of _ p],
             rule exI[of _ tok], rule exI[of _ ev], rule exI[of _ w3], rule exI[of _ w4],
             rule exI[of _ t4], rule exI[of _ t5])
      apply (intro conjI pre mt mv refl)
      apply (rule disjI2, rule disjI2)
      apply (rule exI[of _ m], rule exI[of _ lt], rule exI[of _ w2], rule exI[of _ v2])
      using t 3 by simp
  qed
qed

lemma run_dump: "main sim_env run_dump_args [] = (Inr (), [''gt.csv''], run_dump_trace)"
  by code_simp

theorem main_ground_truth_witness:
  "main sim_env run_dump_args [] = (Inr (), [''gt.csv''], run_dump_trace)
   \<and> (\<exists>t0 ts p tok ev w3 w4 t4 t5.
           list_all is_setup t0
           \<and> main_target sim_env run_dump_args ev w3 = (Inr (), w4, t4)
           \<and> main_verbose sim_env run_dump_args ev w4 = (Inr (), [''gt.csv''], t5)
           \<and> ts = t4 @ t5
           \<and> ((\<exists>g. gt_data run_dump_args = Some g \<and> g \<noteq> []
                  \<and> run_dump_trace = t0 @ [PathExists g True,
                              EvaluatorInit None (Some g) p tok (text_encoder run_dump_args) (num_samples run_dump_args)
                                (language run_dump_args)] @ ts)
              \<or> (\<exists>g m lt w1 w2. gt_data run_dump_args = Some g \<and> g \<noteq> []
                  \<and> load_model sim_env (base_model run_dump_args) (device run_dump_args) (ov_config run_dump_args) (hf run_dump_args) False w1
                       = (Inr m, w2, lt)
                  \<and> run_dump_trace = t0 @ [PathExists g False] @ lt
                         @ [EvaluatorInit (Some m) None p tok (text_encoder run_dump_args) (num_samples run_dump_args)
                              (language run_dump_args),
                            DumpGt ev g, Del ''base_model''] @ ts)
              \<or> (\<exists>m lt w1 w2. \<not> truthy (gt_data run_dump_args)
                  \<and> load_model sim_env (base_model run_dump_args) (device run_dump_args) (ov_config run_dump_args) (hf run_dump_args) False w1
                       = (Inr m, w2, lt)
                  \<and> run_dump_trace = t0 @ lt
                         @ [EvaluatorInit (Some m) None p tok (text_encoder run_dump_args) (num_samples run_dump_args)
                              (language run_dump_args),
                            Del ''base_model''] @ ts)))"
  by (rule conjI [OF run_dump main_ground_truth [OF run_dump]])

text \<open>
  \<^verbatim>\<open>--gt-data\<close> given as the empty string: the base model is loaded and nothing is dumped.
\<close>

theorem gt_data_empty_counterexample:
  "gt_data (parse_args_defaults\<lparr>base_model := Some ''gpt2'', gt_data := Some []\<rparr>) = Some []
   \<and> main sim_env (parse_args_defaults\<lparr>base_model := Some ''gpt2'', gt_data := Some []\<rparr>) []
       = (Inr (), [],
          [TokenizerFromPretrained (Some ''gpt2''),
           OVFromPretrained (Some ''gpt2'') None False ''CPU'' None,
           EvaluatorInit (Some ''ov:gpt2'') None None ''tokenizer:gpt2''
             ''sentence-transformers/all-mpnet-base-v2'' None None,
           Del ''base_model''])"
  by code_simp

subsection \<open>The tables\<close>

lemma load_model_events_Inr:
  "load_model E mid dev c h g w = (r, w', t) \<Longrightarrow> list_all is_loading t"
  using load_model_events[of E mid dev c h g w] by simp

lemma loading_evaluator: "list_all is_loading t \<Longrightarrow> list_all is_evaluator_event t"
proof (induction t)
  case Nil
  show ?case by simp
next
  case (Cons e t)
  then show ?case by (cases e) auto
qed

lemma main_evaluator_events:
  assumes "main_evaluator E a p tok w = (Inr ev, w', t)"
  shows "list_all is_evaluator_event t"
  using main_evaluator_Inr[OF assms]
  by (elim disjE exE conjE) (auto dest!: load_model_events_Inr loading_evaluator)

lemma log_examples_events: "list_all is_view_event (log_examples i exs :: 'o event list)"
  by (induction exs arbitrary: i) (auto split: prod.splits)

lemma main_verbose_events:
  assumes "main_verbose E a ev w = (Inr (), w', t)"
  shows "list_all is_view_event t"
  using main_verbose_Inr[OF assms] log_examples_events
  by (auto split: if_splits)

lemma list_all_weaken: "list_all P t \<Longrightarrow> (\<And>e. P e \<Longrightarrow> Q e) \<Longrightarrow> list_all Q t"
  by (induction t) auto

lemma setup_not_output: "is_setup e \<Longrightarrow> \<not> is_output e"
  by (cases e) auto

lemma loading_not_output: "is_loading e \<Longrightarrow> \<not> is_output e"
  by (cases e) auto

lemma evaluator_not_output: "is_evaluator_event e \<Longrightarrow> \<not> is_output e"
  by (cases e) auto

lemma view_not_output: "is_view_event e \<Longrightarrow> \<not> is_output e"
  by (cases e) auto

text \<open>
  C4, amended. On every run of \<^verbatim>\<open>main\<close> that completes, tables are written if and only if
  \<^verbatim>\<open>--target-model\<close> and \<^verbatim>\<open>--output\<close> are both non-empty strings. Then \<^verbatim>\<open>main\<close> asks
  whether the output directory exists, creates it when it does not, and makes exactly two
  data frames and writes each once: the frame made of the per-question metrics that
  \<^verbatim>\<open>score\<close> returned goes to the file \<open>metrics_per_qustion.csv\<close> in that directory, and
  then the frame made of the aggregate metrics that \<^verbatim>\<open>score\<close> returned goes to the file
  \<open>metrics.csv\<close> in that directory. In every other case the run creates no directory, makes no data frame and
  writes no table.
\<close>

theorem main_tables:
  assumes "main E a w = (Inr (), w', t)"
  shows "\<exists>t0 t5. list_all (\<lambda>e. \<not> is_output e) t0 \<and> list_all (\<lambda>e. \<not> is_output e) t5
           \<and> (if truthy (target_model a) \<and> truthy (output_dir a)
               then \<exists>out r ev m pq am df1 df2 w1 w2 v1 v2 v3 v4 v5 v6.
                      output_dir a = Some out
                      \<and> Score ev m \<in> set t0
                      \<and> score E ev m w1 = (Inr (pq, am), w2)
                      \<and> path_exists E out w2 = (r, v1)
                      \<and> (if r then v2 = v1 else mkdir E out v1 = (Inr (), v2))
                      \<and> data_frame E pq v2 = (Inr df1, v3)
                      \<and> to_csv E df1 (file_in out ''metrics_per_qustion.csv'') v3 = (Inr (), v4)
                      \<and> data_frame E am v4 = (Inr df2, v5)
                      \<and> to_csv E df2 (file_in out ''metrics.csv'') v5 = (Inr (), v6)
                      \<and> t = t0 @ PathExists out r # (if r then [] else [Mkdir out])
                             @ [DataFrame pq, ToCsv df1 (file_in out ''metrics_per_qustion.csv''),
                                DataFrame am, ToCsv df2 (file_in out ''metrics.csv'')]
                             @ t5
               else t = t0 @ t5)"
proof -
  from main_stages[OF assms] obtain p tok ev w1 w2 w3 w4 t1 t2 t3 t4 t5 where
    lp: "load_prompts E a w = (Inr p, w1, t1)"
    and lt: "load_tokenizer E a w1 = (Inr tok, w2, t2)"
    and me: "main_evaluator E a p tok w2 = (Inr ev, w3, t3)"
    and mt: "main_target E a ev w3 = (Inr (), w4, t4)"
    and mv: "main_verbose E a ev w4 = (Inr (), w', t5)"
    and t: "t = t1 @ t2 @ t3 @ t4 @ t5"
    by blast
  have "list_all is_setup t1"
    using load_prompts_events[of E a w] lp by simp
  then have n1: "list_all (\<lambda>e. \<not> is_output e) t1"
    by (rule list_all_weaken) (rule setup_not_output)
  have "list_all is_setup t2"
    using load_tokenizer_events[of E a w1] lt by simp
  then have n2: "list_all (\<lambda>e. \<not> is_output e) t2"
    by (rule list_all_weaken) (rule setup_not_output)
  have n3: "list_all (\<lambda>e. \<not> is_output e) t3"
    by (rule list_all_weaken[OF main_evaluator_events[OF me]]) (rule evaluator_not_output)
  have n5: "list_all (\<lambda>e. \<not> is_output e) t5"
    by (rule list_all_weaken[OF main_verbose_events[OF mv]]) (rule view_not_output)
  show ?thesis
  proof (cases "truthy (target_model a)")
    case False
    with main_target_Inr[OF mt] have "t4 = []" by simp
    with False n1 n2 n3 n5 t show ?thesis
      by (intro exI[of _ "t1 @ t2 @ t3"] exI[of _ t5]) simp
  next
    case True
    with main_target_Inr[OF mt] obtain tm m pq am v1 v2 lt ot where
      lm: "load_model E (target_model a) (device a) (ov_config a) (hf a) False w3 = (Inr m, v1, lt)"
      and sc: "score E ev m v1 = (Inr (pq, am), v2)"
      and mo: "main_output E a pq am v2 = (Inr (), w4, ot)"
      and t4: "t4 = lt @ [Score ev m, LogInfo (LStr ''Metrics for model: %s'') [LStr tm],
                          LogInfo (LObj am) []] @ ot"
      by auto
    define t0 where "t0 = t1 @ t2 @ t3 @ lt @ [Score ev m, LogInfo (LStr ''Metrics for model: %s'') [LStr tm],
                          LogInfo (LObj am) []]"
    have nl: "list_all (\<lambda>e. \<not> is_output e) lt"
      by (rule list_all_weaken[OF load_model_events_Inr[OF lm]]) (rule loading_not_output)
    have n0: "list_all (\<lambda>e. \<not> is_output e) t0"
      using n1 n2 n3 nl by (simp add: t0_def)
    have tt: "t = t0 @ ot @ t5" using t t4 by (simp add: t0_def)
    show ?thesis
    proof (cases "truthy (output_dir a)")
      case False
      with main_output_Inr[OF mo] have "ot = []" by simp
      with False n0 n5 tt show ?thesis
        by (intro exI[of _ t0] exI[of _ t5]) simp
    next
      case out: True
      from main_output_frames[OF mo out] obtain out r df1 df2 u1 u2 u3 u4 u5 where
        o: "output_dir a = Some out"
        and pe: "path_exists E out v2 = (r, u1)"
        and mk: "if r then u2 = u1 else mkdir E out u1 = (Inr (), u2)"
        and d1: "data_frame E pq u2 = (Inr df1, u3)"
        and c1: "to_csv E df1 (file_in out ''metrics_per_qustion.csv'') u3 = (Inr (), u4)"
        and d2: "data_frame E am u4 = (Inr df2, u5)"
        and c2: "to_csv E df2 (file_in out ''metrics.csv'') u5 = (Inr (), w4)"
        and ot: "ot = PathExists out r # (if r then [] else [Mkdir out])
                   @ [DataFrame pq, ToCsv df1 (file_in out ''metrics_per_qustion.csv''),
                      DataFrame am, ToCsv df2 (file_in out ''metrics.csv'')]"
        by blast
      have s0: "Score ev m \<in> set t0" by (simp add: t0_def)
      have "\<exists>out r ev m pq am df1 df2 w1 w2 v1 v2 v3 v4 v5 v6.
                  output_dir a = Some out
                  \<and> Score ev m \<in> set t0
                  \<and> score E ev m w1 = (Inr (pq, am), w2)
                  \<and> path_exists E out w2 = (r, v1)
                  \<and> (if r then v2 = v1 else mkdir E out v1 = (Inr (), v2))
                  \<and> data_frame E pq v2 = (Inr df1, v3)
                  \<and> to_csv E df1 (file_in out ''metrics_per_qustion.csv'') v3 = (Inr (), v4)
                  \<and> data_frame E am v4 = (Inr df2, v5)
                  \<and> to_csv E df2 (file_in out ''metrics.csv'') v5 = (Inr (), v6)
                  \<and> t = t0 @ PathExists out r # (if r then [] else [Mkdir out])
                         @ [DataFrame pq, ToCsv df1 (file_in out ''metrics_per_qustion.csv''),
                            DataFrame am, ToCsv df2 (file_in out ''metrics.csv'')]
                         @ t5"
        apply (rule exI[of _ out], rule exI[of _ r], rule exI[of _ ev], rule exI[of _ m],
               rule exI[of _ pq], rule exI[of _ am], rule exI[of _ df1], rule exI[of _ df2],
               rule exI[of _ v1], rule exI[of _ v2], rule exI[of _ u1], rule exI[of _ u2],
               rule exI[of _ u3], rule exI[of _ u4], rule exI[of _ u5], rule exI[of _ w4])
        using o s0 sc pe mk d1 c1 d2 c2 tt ot by simp
      with True out n0 n5 show ?thesis
        by (intro exI[of _ t0] exI[of _ t5]) simp
    qed
  qed
qed

lemma run_tables:
  "main sim_env run_tables_args []
     = (Inr (), [''out/metrics.csv'', ''out/metrics_per_qustion.csv'', ''out''], run_tables_trace)"
  by code_simp

theorem main_tables_witness:
  "main sim_env run_tables_args []
     = (Inr (), [''out/metrics.csv'', ''out/metrics_per_qustion.csv'', ''out''], run_tables_trace)
   \<and> (\<exists>t0 t5. list_all (\<lambda>e. \<not> is_output e) t0 \<and> list_all (\<lambda>e. \<not> is_output e) t5
       \<and> (if truthy (target_model run_tables_args) \<and> truthy (output_dir run_tables_args)
           then \<exists>out r ev m pq am df1 df2 w1 w2 v1 v2 v3 v4 v5 v6.
                  output_dir run_tables_args = Some out
                  \<and> Score ev m \<in> set t0
                  \<and> score sim_env ev m w1 = (Inr (pq, am), w2)
                  \<and> path_exists sim_env out w2 = (r, v1)
                  \<and> (if r then v2 = v1 else mkdir sim_env out v1 = (Inr (), v2))
                  \<and> data_frame sim_env pq v2 = (Inr df1, v3)
                  \<and> to_csv sim_env df1 (file_in out ''metrics_per_qustion.csv'') v3 = (Inr (), v4)
                  \<and> data_frame sim_env am v4 = (Inr df2, v5)
                  \<and> to_csv sim_env df2 (file_in out ''metrics.csv'') v5 = (Inr (), v6)
                  \<and> run_tables_trace = t0 @ PathExists out r # (if r then [] else [Mkdir out])
                         @ [DataFrame pq, ToCsv df1 (file_in out ''metrics_per_qustion.csv''),
                            DataFrame am, ToCsv df2 (file_in out ''metrics.csv'')]
                         @ t5
           else run_tables_trace = t0 @ t5))"
  by (rule conjI [OF run_tables main_tables [OF run_tables]])

text \<open>\<^verbatim>\<open>--output\<close> given as the empty string, with both models: no table is written.\<close>

theorem output_empty_counterexample:
  "target_model (parse_args_defaults\<lparr>base_model := Some ''gpt2'',
       target_model := Some ''gpt2-int8'', output_dir := Some []\<rparr>) = Some ''gpt2-int8''
   \<and> output_dir (parse_args_defaults\<lparr>base_model := Some ''gpt2'',
       target_model := Some ''gpt2-int8'', output_dir := Some []\<rparr>) = Some []
   \<and> main sim_env (parse_args_defaults\<lparr>base_model := Some ''gpt2'',
         target_model := Some ''gpt2-int8'', output_dir := Some []\<rparr>) []
       = (Inr (), [],
          [TokenizerFromPretrained (Some ''gpt2''),
           OVFromPretrained (Some ''gpt2'') None False ''CPU'' None,
           EvaluatorInit (Some ''ov:gpt2'') None None ''tokenizer:gpt2''
             ''sentence-transformers/all-mpnet-base-v2'' None None,
           Del ''base_model'',
           OVFromPretrained (Some ''gpt2-int8'') None False ''CPU'' None,
           Score ''evaluator'' ''ov:gpt2-int8'',
           LogInfo (LStr ''Metrics for model: %s'') [LStr ''gpt2-int8''],
           LogInfo (LObj ''metrics'') []])"
  by code_simp

subsection \<open>The scores\<close>

lemma setup_not_score: "is_setup e \<Longrightarrow> \<not> is_score e"
  by (cases e) auto

lemma loading_not_score: "is_loading e \<Longrightarrow> \<not> is_score e"
  by (cases e) auto

lemma evaluator_not_score: "is_evaluator_event e \<Longrightarrow> \<not> is_score e"
  by (cases e) auto

lemma view_not_score: "is_view_event e \<Longrightarrow> \<not> is_score e"
  by (cases e) auto

lemma main_output_not_score:
  assumes "main_output E a pq am w = (Inr (), w', t)"
  shows "list_all (\<lambda>e. \<not> is_score e) t"
  using main_output_Inr[OF assms] by (auto split: if_splits)

text \<open>
  C1, amended. \<^verbatim>\<open>check_args\<close> has accepted the arguments of every run of \<^verbatim>\<open>main\<close> that
  completes. On such a run the evaluator stage returns one evaluator (built from the
  loaded base model, or from the ground-truth file when it exists), and
  \<^verbatim>\<open>evaluator.score\<close> is called if and only if \<^verbatim>\<open>--target-model\<close> is a non-empty string:
  then exactly once, on that evaluator and on the model that \<^verbatim>\<open>load_model\<close> returned for
  the target id; otherwise the evaluator stage is followed by the verbose stage alone: no
  target model is loaded and no metrics are computed.
\<close>

theorem main_scores:
  assumes "main E a w = (Inr (), w', t)"
  shows "check_args a = Inr a
         \<and> (\<exists>p tok ev v2 v3 t0 te.
               list_all is_setup t0
               \<and> main_evaluator E a p tok v2 = (Inr ev, v3, te)
               \<and> (if truthy (target_model a)
                   then \<exists>m v4 lt ts.
                          load_model E (target_model a) (device a) (ov_config a) (hf a) False v3
                            = (Inr m, v4, lt)
                          \<and> t = t0 @ te @ lt @ Score ev m # ts
                          \<and> list_all (\<lambda>e. \<not> is_score e) (t0 @ te @ lt @ ts)
                   else \<exists>t5. t = t0 @ te @ t5 \<and> list_all is_view_event t5))"
proof -
  from main_stages[OF assms] obtain p tok ev w1 w2 w3 w4 t1 t2 t3 t4 t5 where
    ca: "check_args a = Inr a"
    and lp: "load_prompts E a w = (Inr p, w1, t1)"
    and lt: "load_tokenizer E a w1 = (Inr tok, w2, t2)"
    and me: "main_evaluator E a p tok w2 = (Inr ev, w3, t3)"
    and mt: "main_target E a ev w3 = (Inr (), w4, t4)"
    and mv: "main_verbose E a ev w4 = (Inr (), w', t5)"
    and t: "t = t1 @ t2 @ t3 @ t4 @ t5"
    by blast
  have s1: "list_all is_setup t1"
    using load_prompts_events[of E a w] lp by simp
  have s2: "list_all is_setup t2"
    using load_tokenizer_events[of E a w1] lt by simp
  from s1 s2 have s12: "list_all is_setup (t1 @ t2)" by simp
  then have n12: "list_all (\<lambda>e. \<not> is_score e) (t1 @ t2)"
    by (rule list_all_weaken) (rule setup_not_score)
  have n3: "list_all (\<lambda>e. \<not> is_score e) t3"
    by (rule list_all_weaken[OF main_evaluator_events[OF me]]) (rule evaluator_not_score)
  have n5: "list_all (\<lambda>e. \<not> is_score e) t5"
    by (rule list_all_weaken[OF main_verbose_events[OF mv]]) (rule view_not_score)
  have "if truthy (target_model a)
        then \<exists>m v4 lt ts.
               load_model E (target_model a) (device a) (ov_config a) (hf a) False w3
                 = (Inr m, v4, lt)
               \<and> t = (t1 @ t2) @ t3 @ lt @ Score ev m # ts
               \<and> list_all (\<lambda>e. \<not> is_score e) ((t1 @ t2) @ t3 @ lt @ ts)
        else \<exists>t5. t = (t1 @ t2) @ t3 @ t5 \<and> list_all is_view_event t5"
  proof (cases "truthy (target_model a)")
    case False
    with main_target_Inr[OF mt] have "t4 = []" by simp
    with t have "t = (t1 @ t2) @ t3 @ t5 \<and> list_all is_view_event t5"
      using main_verbose_events[OF mv] by simp
    then have "\<exists>t5. t = (t1 @ t2) @ t3 @ t5 \<and> list_all is_view_event t5" ..
    with False show ?thesis by simp
  next
    case True
    with main_target_Inr[OF mt] obtain tm m pq am v1 v2 lt ot where
      lm: "load_model E (target_model a) (device a) (ov_config a) (hf a) False w3 = (Inr m, v1, lt)"
      and mo: "main_output E a pq am v2 = (Inr (), w4, ot)"
      and t4: "t4 = lt @ [Score ev m, LogInfo (LStr ''Metrics for model: %s'') [LStr tm],
                          LogInfo (LObj am) []] @ ot"
      by auto
    have nl: "list_all (\<lambda>e. \<not> is_score e) lt"
      by (rule list_all_weaken[OF load_model_events_Inr[OF lm]]) (rule loading_not_score)
    note no = main_output_not_score[OF mo]
    define ts where "ts = [LogInfo (LStr ''Metrics for model: %s'') [LStr tm],
                          LogInfo (LObj am) []] @ ot @ t5"
    have "load_model E (target_model a) (device a) (ov_config a) (hf a) False w3 = (Inr m, v1, lt)
          \<and> t = (t1 @ t2) @ t3 @ lt @ Score ev m # ts
          \<and> list_all (\<lambda>e. \<not> is_score e) ((t1 @ t2) @ t3 @ lt @ ts)"
      using lm t t4 n12 n3 nl no n5 by (simp add: ts_def)
    then have "\<exists>m v4 lt ts.
               load_model E (target_model a) (device a) (ov_config a) (hf a) False w3
                 = (Inr m, v4, lt)
               \<and> t = (t1 @ t2) @ t3 @ lt @ Score ev m # ts
               \<and> list_all (\<lambda>e. \<not> is_score e) ((t1 @ t2) @ t3 @ lt @ ts)"
      by (intro exI[of _ m] exI[of _ v1] exI[of _ lt] exI[of _ ts])
    with True show ?thesis by simp
  qed
  then show ?thesis
    apply (intro conjI ca)
    apply (rule exI[of _ p], rule exI[of _ tok], rule exI[of _ ev], rule exI[of _ w2],
           rule exI[of _ w3], rule exI[of _ "t1 @ t2"], rule exI[of _ t3])
    using s12 me by simp
qed

theorem main_scores_witness:
  "main sim_env run_tables_args []
     = (Inr (), [''out/metrics.csv'', ''out/metrics_per_qustion.csv'', ''out''], run_tables_trace)
   \<and> (check_args run_tables_args = Inr run_tables_args
         \<and> (\<exists>p tok ev v2 v3 t0 te.
               list_all is_setup t0
               \<and> main_evaluator sim_env run_tables_args p tok v2 = (Inr ev, v3, te)
               \<and> (if truthy (target_model run_tables_args)
                   then \<exists>m v4 lt ts.
                          load_model sim_env (target_model run_tables_args) (device run_tables_args) (ov_config run_tables_args) (hf run_tables_args) False v3
                            = (Inr m, v4, lt)
                          \<and> run_tables_trace = t0 @ te @ lt @ Score ev m # ts
                          \<and> list_all (\<lambda>e. \<not> is_score e) (t0 @ te @ lt @ ts)
                   else \<exists>t5. run_tables_trace = t0 @ te @ t5 \<and> list_all is_view_event t5)))"
  by (rule conjI [OF run_tables main_scores [OF run_tables]])

text \<open>
  A base model and nothing else: \<^verbatim>\<open>check_args\<close> accepts the arguments, the run completes,
  no target model is loaded and \<^verbatim>\<open>evaluator.score\<close> is not called.
\<close>

theorem base_only_counterexample:
  "check_args (parse_args_defaults\<lparr>base_model := Some ''gpt2''\<rparr>)
     = Inr (parse_args_defaults\<lparr>base_model := Some ''gpt2''\<rparr>)
   \<and> main sim_env (parse_args_defaults\<lparr>base_model := Some ''gpt2''\<rparr>) []
       = (Inr (), [],
          [TokenizerFromPretrained (Some ''gpt2''),
           OVFromPretrained (Some ''gpt2'') None False ''CPU'' None,
           EvaluatorInit (Some ''ov:gpt2'') None None ''tokenizer:gpt2''
             ''sentence-transformers/all-mpnet-base-v2'' None None,
           Del ''base_model''])"
  by code_simp

subsection \<open>The view of the worst examples\<close>

lemma example_texts_pairs:
  "example_texts ls (r, a, d) =
     (r @ concat (map (\<lambda>(l1, l2). l1 @ [CHR 0x0A]) (filter (\<lambda>(l1, l2). \<not> (l1 = [] \<and> l2 = [])) ls)),
      a @ concat (map (\<lambda>(l1, l2). l2 @ [CHR 0x0A]) (filter (\<lambda>(l1, l2). \<not> (l1 = [] \<and> l2 = [])) ls)),
      d @ concat (map (\<lambda>(l1, l2). diff_strings l1 l2 False @ [CHR 0x0A])
                  (filter (\<lambda>(l1, l2). \<not> (l1 = [] \<and> l2 = [])) ls)))"
  by (induction ls arbitrary: r a d) auto

lemma log_examples_view:
  "(log_examples i exs :: 'o event list) = concat (map (\<lambda>(k, e). example_view k e) (enumerate i exs))"
  by (induction exs arbitrary: i) (simp_all add: example_texts_pairs example_view_def Let_def)

lemma check_args_verbose:
  "check_args a = Inr a \<Longrightarrow> check_args (a\<lparr>verbose := v\<rparr>) = Inr (a\<lparr>verbose := v\<rparr>)"
  by (auto simp: check_args_def split: if_splits)

lemma load_prompts_verbose: "load_prompts E (a\<lparr>verbose := v\<rparr>) = load_prompts E a"
  by (simp add: load_prompts_def Let_def cong: option.case_cong)

lemma load_tokenizer_verbose: "load_tokenizer E (a\<lparr>verbose := v\<rparr>) = load_tokenizer E a"
  by (simp add: load_tokenizer_def)

lemma main_evaluator_verbose: "main_evaluator E (a\<lparr>verbose := v\<rparr>) = main_evaluator E a"
  by (simp add: main_evaluator_def fun_eq_iff cong: option.case_cong if_cong)

lemma main_output_verbose: "main_output E (a\<lparr>verbose := v\<rparr>) = main_output E a"
  by (simp add: main_output_def fun_eq_iff cong: option.case_cong if_cong)

lemma main_target_verbose: "main_target E (a\<lparr>verbose := v\<rparr>) = main_target E a"
  by (simp add: main_target_def main_output_verbose fun_eq_iff cong: option.case_cong if_cong)

lemma setup_not_worst: "is_setup e \<Longrightarrow> \<not> is_worst e"
  by (cases e) auto

lemma loading_not_worst: "is_loading e \<Longrightarrow> \<not> is_worst e"
  by (cases e) auto

lemma evaluator_not_worst: "is_evaluator_event e \<Longrightarrow> \<not> is_worst e"
  by (cases e) auto

lemma main_target_not_worst:
  assumes "main_target E a ev w = (Inr (), w', t)"
  shows "list_all (\<lambda>e. \<not> is_worst e) t"
proof (cases "truthy (target_model a)")
  case False
  with main_target_Inr[OF assms] show ?thesis by simp
next
  case True
  with main_target_Inr[OF assms] obtain tm m pq am v1 v2 lt ot where
    lm: "load_model E (target_model a) (device a) (ov_config a) (hf a) False w = (Inr m, v1, lt)"
    and mo: "main_output E a pq am v2 = (Inr (), w', ot)"
    and t: "t = lt @ [Score ev m, LogInfo (LStr ''Metrics for model: %s'') [LStr tm],
                      LogInfo (LObj am) []] @ ot"
    by auto
  have nl: "list_all (\<lambda>e. \<not> is_worst e) lt"
    by (rule list_all_weaken[OF load_model_events_Inr[OF lm]]) (rule loading_not_worst)
  have no: "list_all (\<lambda>e. \<not> is_worst e) ot"
    using main_output_Inr[OF mo] by (auto split: if_splits)
  from nl no show ?thesis by (simp add: t)
qed

text \<open>
  C5. On every run of \<^verbatim>\<open>main\<close> that completes, the view of the worst examples is logged
  if and only if \<^verbatim>\<open>--verbose\<close> is passed. Without it the run is the run with \<^verbatim>\<open>verbose\<close>
  off, which never asks for the worst examples. With it, that run is followed by one call
  \<^verbatim>\<open>evaluator.worst_examples(top_k=5, metric="similarity")\<close> on the evaluator, and then,
  for each example in order, numbered from 1, by the five log records of its view: the
  rule, the reference text, the actual text, the diff header and the diff, the three
  texts being built line by line with \<^verbatim>\<open>diff_strings\<close> over the zipped lines of the two
  texts, the pairs of two empty lines left out.
\<close>

theorem main_worst_view:
  assumes "main E a w = (Inr (), w', t)"
  shows "\<exists>t0 w0 ev p tok v2 v3 te.
           main E (a\<lparr>verbose := False\<rparr>) w = (Inr (), w0, t0)
           \<and> list_all (\<lambda>e. \<not> is_worst e) t0
           \<and> main_evaluator E a p tok v2 = (Inr ev, v3, te)
           \<and> (if verbose a
               then \<exists>exs. worst_examples E ev 5 ''similarity'' w0 = (Inr exs, w')
                      \<and> t = t0 @ WorstExamples ev 5 ''similarity''
                                # concat (map (\<lambda>(i, e). example_view i e) (enumerate 0 exs))
               else t = t0 \<and> w' = w0)"
proof -
  from main_stages[OF assms] obtain p tok ev w1 w2 w3 w4 t1 t2 t3 t4 t5 where
    ca: "check_args a = Inr a"
    and lp: "load_prompts E a w = (Inr p, w1, t1)"
    and lt: "load_tokenizer E a w1 = (Inr tok, w2, t2)"
    and me: "main_evaluator E a p tok w2 = (Inr ev, w3, t3)"
    and mt: "main_target E a ev w3 = (Inr (), w4, t4)"
    and mv: "main_verbose E a ev w4 = (Inr (), w', t5)"
    and t: "t = t1 @ t2 @ t3 @ t4 @ t5"
    by blast
  have quiet: "main E (a\<lparr>verbose := False\<rparr>) w = (Inr (), w4, t1 @ t2 @ t3 @ t4)"
    by (simp add: main_def io_bind_def io_lift_def check_args_verbose[OF ca] load_prompts_verbose
          load_tokenizer_verbose main_evaluator_verbose main_target_verbose lp lt me mt
          main_verbose_def io_return_def)
  have "list_all is_setup (t1 @ t2)"
    using load_prompts_events[of E a w] load_tokenizer_events[of E a w1] lp lt by simp
  then have n12: "list_all (\<lambda>e. \<not> is_worst e) (t1 @ t2)"
    by (rule list_all_weaken) (rule setup_not_worst)
  have n3: "list_all (\<lambda>e. \<not> is_worst e) t3"
    by (rule list_all_weaken[OF main_evaluator_events[OF me]]) (rule evaluator_not_worst)
  note n4 = main_target_not_worst[OF mt]
  from n12 n3 n4 have n: "list_all (\<lambda>e. \<not> is_worst e) (t1 @ t2 @ t3 @ t4)" by simp
  have view: "if verbose a
               then \<exists>exs. worst_examples E ev 5 ''similarity'' w4 = (Inr exs, w')
                      \<and> t = (t1 @ t2 @ t3 @ t4) @ WorstExamples ev 5 ''similarity''
                                # concat (map (\<lambda>(i, e). example_view i e) (enumerate 0 exs))
               else t = t1 @ t2 @ t3 @ t4 \<and> w' = w4"
    using main_verbose_Inr[OF mv] t by (auto simp: log_examples_view)
  show ?thesis
    apply (rule exI[of _ "t1 @ t2 @ t3 @ t4"], rule exI[of _ w4], rule exI[of _ ev],
           rule exI[of _ p], rule exI[of _ tok], rule exI[of _ w2], rule exI[of _ w3],
           rule exI[of _ t3])
    by (intro conjI quiet n me view)
qed

lemma run_view: "main sim_env run_view_args [] = (Inr (), [], run_view_trace)"
  by code_simp

theorem main_worst_view_witness:
  "main sim_env run_view_args [] = (Inr (), [], run_view_trace)
   \<and> (\<exists>t0 w0 ev p tok v2 v3 te.
           main sim_env (run_view_args\<lparr>verbose := False\<rparr>) [] = (Inr (), w0, t0)
           \<and> list_all (\<lambda>e. \<not> is_worst e) t0
           \<and> main_evaluator sim_env run_view_args p tok v2 = (Inr ev, v3, te)
           \<and> (if verbose run_view_args
               then \<exists>exs. worst_examples sim_env ev 5 ''similarity'' w0 = (Inr exs, [])
                      \<and> run_view_trace = t0 @ WorstExamples ev 5 ''similarity''
                                # concat (map (\<lambda>(i, e). example_view i e) (enumerate 0 exs))
               else run_view_trace = t0 \<and> [] = w0))"
  by (rule conjI [OF run_view main_worst_view [OF run_view]])

end
